theory Spec2Isabelle
  imports Complex_Main "HOL-Library.Sublist" "HOL-Library.Multiset" "HOL-Library.Log_Nat"
begin

section \<open>Python values used by \<open>train.py\<close>\<close>

subsection \<open>Exceptions\<close>

text \<open>
  The exceptions that can leave \<open>train_model\<close>: the ones Python itself raises in the body
  of the function, and whatever a called collaborator raises (carried as \<open>Raised\<close> with its
  message).
\<close>

datatype error =
    UnboundLocalError
  | ZeroDivisionError
  | OverflowError
  | ValueError
  | RuntimeError
  | Raised string

subsection \<open>Floats\<close>

text \<open>
  A Python float is an IEEE 754 double: a finite value (a rational number), one of the two
  infinities, or NaN. \<open>float_lt\<close> is the comparison \<open>x < y\<close>: false as soon as one side
  is NaN, the order of the extended number line otherwise.
\<close>

datatype pyfloat = Fin rat | PInf | NInf | NaN

fun float_lt :: "pyfloat \<Rightarrow> pyfloat \<Rightarrow> bool" where
  "float_lt NaN y = False"
| "float_lt x NaN = False"
| "float_lt (Fin x) (Fin y) = (x < y)"
| "float_lt (Fin x) PInf = True"
| "float_lt (Fin x) NInf = False"
| "float_lt PInf y = False"
| "float_lt NInf NInf = False"
| "float_lt NInf y = True"

text \<open>
  Rounding a rational to the nearest double, ties to even: 53 significant bits, the least
  exponent of a subnormal being \<open>-1074\<close>. The result is not bounded above here; a result of
  magnitude \<open>2 ^ 1024\<close> or more is what \<open>double_overflows\<close> recognises.
\<close>

definition pow2 :: "int \<Rightarrow> rat" where
  "pow2 e = (if 0 \<le> e then 2 ^ nat e else 1 / 2 ^ nat (- e))"

definition round_half_even :: "rat \<Rightarrow> int" where
  "round_half_even q =
     (let f = \<lfloor>q\<rfloor>; r = q - of_int f
      in if r < 1 / 2 then f else if 1 / 2 < r then f + 1 else if even f then f else f + 1)"

definition floor_log2 :: "rat \<Rightarrow> int" where
  \<comment> \<open>for \<open>0 < q\<close>: the exponent \<open>d\<close> with \<open>2 ^ d \<le> q < 2 ^ (d + 1)\<close>\<close>
  "floor_log2 q =
     (case quotient_of q of (a, b) \<Rightarrow>
        let d = bitlen a - bitlen b in if pow2 d \<le> q then d else d - 1)"

definition round_to_double :: "rat \<Rightarrow> rat" where
  "round_to_double q =
     (if q = 0 then 0
      else let e = max (floor_log2 \<bar>q\<bar> - 52) (- 1074)
           in of_int (round_half_even (q / pow2 e)) * pow2 e)"

definition double_overflows :: "rat \<Rightarrow> bool" where
  "double_overflows x = (2 ^ 1024 \<le> \<bar>x\<bar>)"

definition float_literal :: "rat \<Rightarrow> pyfloat" where
  \<comment> \<open>a decimal literal of the source, such as \<open>0.001\<close>\<close>
  "float_literal q = Fin (round_to_double q)"

definition int_truediv :: "int \<Rightarrow> int \<Rightarrow> error + rat" where
  \<comment> \<open>\<open>a / b\<close> on two ints: the correctly rounded quotient\<close>
  "int_truediv a b =
     (if b = 0 then Inl ZeroDivisionError
      else let x = round_to_double (of_int a / of_int b)
           in if double_overflows x then Inl OverflowError else Inr x)"

definition float_of_int :: "int \<Rightarrow> error + rat" where
  \<comment> \<open>the conversion of an int operand of a float operation\<close>
  "float_of_int n =
     (let x = round_to_double (of_int n)
      in if double_overflows x then Inl OverflowError else Inr x)"

definition float_mul :: "rat \<Rightarrow> rat \<Rightarrow> pyfloat" where
  \<comment> \<open>\<open>x * y\<close> on two finite floats: an overflow gives an infinity, not an exception\<close>
  "float_mul x y =
     (let z = round_to_double (x * y)
      in if double_overflows z then (if 0 < z then PInf else NInf) else Fin z)"

fun int_of_float :: "pyfloat \<Rightarrow> error + int" where
  \<comment> \<open>\<open>int(x)\<close>: truncation towards zero\<close>
  "int_of_float (Fin x) = Inr (if 0 \<le> x then \<lfloor>x\<rfloor> else \<lceil>x\<rceil>)"
| "int_of_float PInf = Inl OverflowError"
| "int_of_float NInf = Inl OverflowError"
| "int_of_float NaN = Inl ValueError"

section \<open>The network and its tensors\<close>

text \<open>
  A parameter of the network is a tensor: a handle on a piece of storage whose contents the
  training step overwrites in place. The store maps the address of a storage to its
  contents; the network is the ordered list of its named parameters.

  \<open>state_dict\<close> is \<open>torch.nn.Module.state_dict\<close>: an ordered dictionary from each
  parameter name to a tensor on the storage of that parameter. It copies no data (the
  documentation of torch calls the result a shallow copy, holding references to the
  parameters of the module), so the dictionary shares the storage of the live network.
  \<open>load_state_dict\<close> is the strict loading of torch: the keys must be those of the
  network, and the contents of each given tensor are copied into the storage of the
  parameter of that name. The step functions and the optimizer of torch update parameters
  in place: a training pass changes the contents of the store, never the handles.
\<close>

type_synonym addr = nat
type_synonym 't heap = "addr \<Rightarrow> 't"
type_synonym network = "(string \<times> addr) list"
type_synonym state_dict = "(string \<times> addr) list"

definition named_parameters :: "network \<Rightarrow> (string \<times> addr) list" where
  "named_parameters network = network"

definition parameters :: "network \<Rightarrow> addr list" where
  "parameters network = map snd (named_parameters network)"

definition state_dict :: "network \<Rightarrow> state_dict" where
  "state_dict network = named_parameters network"

definition parameter_values :: "network \<Rightarrow> 't heap \<Rightarrow> (string \<times> 't) list" where
  \<comment> \<open>the parameter state of the network: the contents of every named parameter\<close>
  "parameter_values network h = map (\<lambda>(n, p). (n, h p)) (named_parameters network)"

definition state_dict_values :: "state_dict \<Rightarrow> 't heap \<Rightarrow> (string \<times> 't) list" where
  \<comment> \<open>what a state dictionary holds when it is read\<close>
  "state_dict_values sd h = map (\<lambda>(n, p). (n, h p)) sd"

section \<open>The world outside \<open>train.py\<close>\<close>

text \<open>
  Everything \<open>train_model\<close> does to the world goes through a call: the seeding of the
  random number generators and the cuDNN flags, the data loader factory, the optimizer and
  the schedule, the two step functions, and the progress lines. Each call is an event of
  the trace, with the arguments the source passes.
\<close>

datatype optimizer_parameters =
    Params "addr list"
  | Param_groups "(addr list \<times> pyfloat) list"

datatype event =
    Torch_manual_seed int
  | Torch_cuda_manual_seed_all int
  | Cudnn_deterministic bool
  | Cudnn_benchmark bool
  | Random_seed int
  | Np_random_seed int
  | Create_dataloader "string list list option" "string list list option" string int int "string list"
      "error + nat"
  | AdamW optimizer_parameters pyfloat
  | Get_linear_schedule_with_warmup int int
  | Print_epoch int int
  | Train network "string option" nat "error + pyfloat"
  | Validate network "string option" nat "error + pyfloat"
  | Print_losses pyfloat pyfloat

record 't world =
  heap :: "'t heap"
  trace :: "event list"

text \<open>
  The collaborators are not part of \<open>train.py\<close>, so they are parameters of the model.
  Each sees the calls made so far: its answer may depend on the seeds, the loaders, the
  optimizer and the schedule built before it. A library call without a result either
  raises or returns; the data loader factory returns the length of the reader it built;
  a step function updates the store and returns its loss, or raises, with whatever it had
  written to the store before.
\<close>

record 't collaborators =
  library_raises :: "event list \<Rightarrow> event \<Rightarrow> error option"
  create_dataloader ::
    "event list \<Rightarrow> string list list option \<Rightarrow> string list list option \<Rightarrow> string \<Rightarrow> int \<Rightarrow> int \<Rightarrow>
       string list \<Rightarrow> error + nat"
  train_fn :: "event list \<Rightarrow> network \<Rightarrow> string option \<Rightarrow> nat \<Rightarrow> 't heap \<Rightarrow> (error + pyfloat) \<times> 't heap"
  validate_fn :: "event list \<Rightarrow> network \<Rightarrow> string option \<Rightarrow> nat \<Rightarrow> 't heap \<Rightarrow> (error + pyfloat) \<times> 't heap"

subsection \<open>Programs: a result or an exception, and the world after\<close>

type_synonym ('t, 'a) prog = "'t world \<Rightarrow> (error + 'a) \<times> 't world"

definition ret :: "'a \<Rightarrow> ('t, 'a) prog" where
  "ret x w = (Inr x, w)"

definition throw :: "error \<Rightarrow> ('t, 'a) prog" where
  "throw e w = (Inl e, w)"

definition lift :: "error + 'a \<Rightarrow> ('t, 'a) prog" where
  "lift r w = (r, w)"

definition bnd :: "('t, 'a) prog \<Rightarrow> ('a \<Rightarrow> ('t, 'b) prog) \<Rightarrow> ('t, 'b) prog" where
  "bnd m f w = (case m w of (Inl e, w') \<Rightarrow> (Inl e, w') | (Inr x, w') \<Rightarrow> f x w')"

definition emit :: "event \<Rightarrow> ('t, unit) prog" where
  \<comment> \<open>a progress line on the output stream\<close>
  "emit ev w = (Inr (), w\<lparr>trace := trace w @ [ev]\<rparr>)"

definition library :: "'t collaborators \<Rightarrow> event \<Rightarrow> ('t, unit) prog" where
  "library E ev w =
     (case library_raises E (trace w) ev of
        Some e \<Rightarrow> (Inl e, w\<lparr>trace := trace w @ [ev]\<rparr>)
      | None \<Rightarrow> (Inr (), w\<lparr>trace := trace w @ [ev]\<rparr>))"

definition call_create_dataloader ::
  "'t collaborators \<Rightarrow> string list list option \<Rightarrow> string list list option \<Rightarrow> string \<Rightarrow> int \<Rightarrow> int \<Rightarrow>
     string list \<Rightarrow> ('t, nat) prog" where
  "call_create_dataloader E sentences tags bert_model_name max_len batch_size tag_encoder w =
     (let r = create_dataloader E (trace w) sentences tags bert_model_name max_len batch_size tag_encoder
      in (r, w\<lparr>trace := trace w @
                 [Create_dataloader sentences tags bert_model_name max_len batch_size tag_encoder r]\<rparr>))"

definition call_train :: "'t collaborators \<Rightarrow> network \<Rightarrow> string option \<Rightarrow> nat \<Rightarrow> ('t, pyfloat) prog" where
  "call_train E network device n_tags w =
     (case train_fn E (trace w) network device n_tags (heap w) of
        (r, h) \<Rightarrow> (r, \<lparr>heap = h, trace = trace w @ [Train network device n_tags r]\<rparr>))"

definition call_validate :: "'t collaborators \<Rightarrow> network \<Rightarrow> string option \<Rightarrow> nat \<Rightarrow> ('t, pyfloat) prog" where
  "call_validate E network device n_tags w =
     (case validate_fn E (trace w) network device n_tags (heap w) of
        (r, h) \<Rightarrow> (r, \<lparr>heap = h, trace = trace w @ [Validate network device n_tags r]\<rparr>))"

definition load_state_dict :: "network \<Rightarrow> state_dict \<Rightarrow> ('t, unit) prog" where
  "load_state_dict network sd w =
     (if set (map fst sd) \<noteq> set (map fst (named_parameters network)) then (Inl RuntimeError, w)
      else (Inr (),
            w\<lparr>heap := fold (\<lambda>(n, p) h. case map_of sd n of Some q \<Rightarrow> h(p := h q) | None \<Rightarrow> h)
                         (named_parameters network) (heap w)\<rparr>))"

section \<open>\<open>enforce_reproducibility\<close>\<close>

definition enforce_reproducibility :: "'t collaborators \<Rightarrow> int \<Rightarrow> ('t, unit) prog" where
  "enforce_reproducibility E seed =
     bnd (library E (Torch_manual_seed seed)) (\<lambda>_.
     bnd (library E (Torch_cuda_manual_seed_all seed)) (\<lambda>_.
     bnd (library E (Cudnn_deterministic True)) (\<lambda>_.
     bnd (library E (Cudnn_benchmark False)) (\<lambda>_.
     bnd (library E (Random_seed seed)) (\<lambda>_.
     library E (Np_random_seed seed))))))"

section \<open>\<open>train_model\<close>\<close>

subsection \<open>The optimizer's parameter groups\<close>

definition no_decay :: "string list" where
  "no_decay = [''bias'', ''LayerNorm.bias'', ''LayerNorm.weight'']"

definition any_no_decay :: "string \<Rightarrow> bool" where
  \<comment> \<open>\<open>any(nd in n for nd in no_decay)\<close>\<close>
  "any_no_decay n = list_ex (\<lambda>nd. sublist nd n) no_decay"

definition optimizer_parameters :: "network \<Rightarrow> bool \<Rightarrow> optimizer_parameters" where
  "optimizer_parameters network custom_weight_decay =
     (if custom_weight_decay then
        let param_optimizer = named_parameters network
        in Param_groups
             [(map snd (filter (\<lambda>(n, p). \<not> any_no_decay n) param_optimizer), float_literal (1 / 1000)),
              (map snd (filter (\<lambda>(n, p). any_no_decay n) param_optimizer), float_literal 0)]
      else Params (parameters network))"

text \<open>
  How the optimizer of torch reads its first argument: a plain sequence of parameters is
  one group, with no option of its own (\<open>None\<close>: the default of the library applies); a
  list of dictionaries is one group per dictionary, with the decay it gives.
\<close>

fun param_groups :: "optimizer_parameters \<Rightarrow> (addr list \<times> pyfloat option) list" where
  "param_groups (Params ps) = [(ps, None)]"
| "param_groups (Param_groups gs) = map (\<lambda>(ps, d). (ps, Some d)) gs"

subsection \<open>The number of training steps\<close>

definition num_train_steps :: "nat \<Rightarrow> int \<Rightarrow> int \<Rightarrow> error + int" where
  \<comment> \<open>\<open>int(len(dr_train) / train_batch_size * epochs)\<close>\<close>
  "num_train_steps len_dr_train train_batch_size epochs =
     (case int_truediv (int len_dr_train) train_batch_size of
        Inl e \<Rightarrow> Inl e
      | Inr q \<Rightarrow>
          (case float_of_int epochs of
             Inl e \<Rightarrow> Inl e
           | Inr ef \<Rightarrow> int_of_float (float_mul q ef)))"

subsection \<open>The epoch loop\<close>

text \<open>
  The local variables of the loop. \<open>best_parameters\<close> is not bound before the loop:
  \<open>None\<close> is the unbound variable.
\<close>

record loop_state =
  losses :: "pyfloat list"
  best_loss :: pyfloat
  best_parameters :: "state_dict option"

definition epoch_body ::
  "'t collaborators \<Rightarrow> network \<Rightarrow> string option \<Rightarrow> nat \<Rightarrow> int \<Rightarrow> int \<Rightarrow> loop_state \<Rightarrow> ('t, loop_state) prog" where
  "epoch_body E network device n_tags epochs epoch ls =
     bnd (emit (Print_epoch (epoch + 1) epochs)) (\<lambda>_.
     bnd (call_train E network device n_tags) (\<lambda>train_loss.
     let ls1 = ls\<lparr>losses := losses ls @ [train_loss]\<rparr> in
     bnd (call_validate E network device n_tags) (\<lambda>valid_loss.
     bnd (emit (Print_losses train_loss valid_loss)) (\<lambda>_.
       if float_lt valid_loss (best_loss ls1)
       then ret (ls1\<lparr>best_parameters := Some (state_dict network), best_loss := valid_loss\<rparr>)
       else ret ls1))))"

fun for_each :: "('i \<Rightarrow> 's \<Rightarrow> ('t, 's) prog) \<Rightarrow> 'i list \<Rightarrow> 's \<Rightarrow> ('t, 's) prog" where
  "for_each body [] s w = (Inr s, w)"
| "for_each body (i # rest) s w =
     (case body i s w of
        (Inl e, w') \<Rightarrow> (Inl e, w')
      | (Inr s', w') \<Rightarrow> for_each body rest s' w')"

definition py_range :: "int \<Rightarrow> int list" where
  "py_range n = [0..n - 1]"

definition epoch_loop ::
  "'t collaborators \<Rightarrow> network \<Rightarrow> string option \<Rightarrow> nat \<Rightarrow> int \<Rightarrow> ('t, loop_state) prog" where
  "epoch_loop E network device n_tags epochs =
     for_each (epoch_body E network device n_tags epochs) (py_range epochs)
       \<lparr>losses = [], best_loss = PInf, best_parameters = None\<rparr>"

subsection \<open>The function\<close>

definition train_model ::
  "'t collaborators \<Rightarrow> network \<Rightarrow> string list \<Rightarrow> (string \<Rightarrow> string list list option) \<Rightarrow>
     (string \<Rightarrow> string list list option) \<Rightarrow> string \<Rightarrow> int \<Rightarrow> int \<Rightarrow> int \<Rightarrow> int \<Rightarrow> int \<Rightarrow> bool \<Rightarrow> pyfloat \<Rightarrow>
     string option \<Rightarrow> int option \<Rightarrow> ('t, network \<times> pyfloat list) prog" where
  "train_model E network tag_encoder dataset_training dataset_validation bert_model_name max_len
     train_batch_size validation_batch_size epochs warmup_steps custom_weight_decay learning_rate
     device fixed_seed =
     bnd (case fixed_seed of None \<Rightarrow> ret () | Some seed \<Rightarrow> enforce_reproducibility E seed) (\<lambda>_.
     let n_tags = length tag_encoder in
     bnd (call_create_dataloader E (dataset_training ''sentences'') (dataset_training ''tags'')
            bert_model_name max_len train_batch_size tag_encoder) (\<lambda>len_dr_train.
     bnd (call_create_dataloader E (dataset_validation ''sentences'') (dataset_validation ''tags'')
            bert_model_name max_len validation_batch_size tag_encoder) (\<lambda>len_dr_validate.
     bnd (lift (num_train_steps len_dr_train train_batch_size epochs)) (\<lambda>total.
     bnd (library E (AdamW (optimizer_parameters network custom_weight_decay) learning_rate)) (\<lambda>_.
     bnd (library E (Get_linear_schedule_with_warmup warmup_steps total)) (\<lambda>_.
     bnd (epoch_loop E network device n_tags epochs) (\<lambda>ls.
     bnd (case best_parameters ls of
            None \<Rightarrow> throw UnboundLocalError
          | Some bp \<Rightarrow> load_state_dict network bp) (\<lambda>_.
     ret (network, losses ls)))))))))"

section \<open>Reading a trace\<close>

text \<open>
  The losses the step functions returned, in the order of the calls, and the events of the
  seeder.
\<close>

fun train_loss_of :: "event \<Rightarrow> pyfloat list" where
  "train_loss_of (Train network device n_tags (Inr l)) = [l]"
| "train_loss_of ev = []"

fun valid_loss_of :: "event \<Rightarrow> pyfloat list" where
  "valid_loss_of (Validate network device n_tags (Inr l)) = [l]"
| "valid_loss_of ev = []"

definition train_losses :: "event list \<Rightarrow> pyfloat list" where
  "train_losses tr = concat (map train_loss_of tr)"

definition valid_losses :: "event list \<Rightarrow> pyfloat list" where
  "valid_losses tr = concat (map valid_loss_of tr)"

fun is_seeding :: "event \<Rightarrow> bool" where
  "is_seeding (Torch_manual_seed s) = True"
| "is_seeding (Torch_cuda_manual_seed_all s) = True"
| "is_seeding (Cudnn_deterministic b) = True"
| "is_seeding (Cudnn_benchmark b) = True"
| "is_seeding (Random_seed s) = True"
| "is_seeding (Np_random_seed s) = True"
| "is_seeding ev = False"

definition seeding_events :: "int \<Rightarrow> event list" where
  "seeding_events seed =
     [Torch_manual_seed seed, Torch_cuda_manual_seed_all seed, Cudnn_deterministic True,
      Cudnn_benchmark False, Random_seed seed, Np_random_seed seed]"

definition epoch_events ::
  "network \<Rightarrow> string option \<Rightarrow> nat \<Rightarrow> int \<Rightarrow> int \<Rightarrow> pyfloat \<times> pyfloat \<Rightarrow> event list" where
  \<comment> \<open>the calls of one completed iteration of the loop\<close>
  "epoch_events network device n_tags epochs epoch r =
     [Print_epoch (epoch + 1) epochs,
      Train network device n_tags (Inr (fst r)),
      Validate network device n_tags (Inr (snd r)),
      Print_losses (fst r) (snd r)]"

fun aborted_epoch_events ::
  "network \<Rightarrow> string option \<Rightarrow> nat \<Rightarrow> int \<Rightarrow> int \<Rightarrow> error \<Rightarrow> pyfloat option \<Rightarrow> event list" where
  \<comment> \<open>the calls of an iteration in which a step function raised: the training step, or
      the validation step after a training step that returned\<close>
  "aborted_epoch_events network device n_tags epochs epoch err None =
     [Print_epoch (epoch + 1) epochs, Train network device n_tags (Inl err)]"
| "aborted_epoch_events network device n_tags epochs epoch err (Some train_loss) =
     [Print_epoch (epoch + 1) epochs,
      Train network device n_tags (Inr train_loss),
      Validate network device n_tags (Inl err)]"

definition seeds :: "int option \<Rightarrow> event list" where
  \<comment> \<open>the events of the seeding phase of a run that got past it\<close>
  "seeds fixed_seed = (case fixed_seed of None \<Rightarrow> [] | Some seed \<Rightarrow> seeding_events seed)"

definition unseeded :: "('t, 'a) prog \<Rightarrow> bool" where
  \<comment> \<open>a program that never calls a seeding function nor assigns a cuDNN flag\<close>
  "unseeded m =
     (\<forall>w r w'. m w = (r, w') \<longrightarrow> (\<exists>new. trace w' = trace w @ new \<and> \<not> list_ex is_seeding new))"

section \<open>Minimum of a list of floats\<close>

fun float_le :: "pyfloat \<Rightarrow> pyfloat \<Rightarrow> bool" where
  \<comment> \<open>\<open>x <= y\<close>\<close>
  "float_le NaN y = False"
| "float_le x NaN = False"
| "float_le x y = (x = y \<or> float_lt x y)"

definition is_min_of :: "pyfloat \<Rightarrow> pyfloat list \<Rightarrow> bool" where
  "is_min_of m xs = (m \<in> set xs \<and> list_all (float_le m) xs)"

definition improves :: "pyfloat \<Rightarrow> pyfloat list \<Rightarrow> bool" where
  \<comment> \<open>strictly below \<open>+\<infinity>\<close> and below every loss of the list that is not NaN\<close>
  "improves v vs = (float_lt v PInf \<and> list_all (\<lambda>u. u \<noteq> NaN \<longrightarrow> float_lt v u) vs)"

section \<open>A scripted environment\<close>

text \<open>
  Collaborators for running the model on concrete inputs. No library call raises; the
  reader has one example per sentence; a training pass adds one to every parameter of the
  network, in place, and returns as its loss the new value of the first parameter; the
  \<open>k\<close>-th validation pass returns the \<open>k\<close>-th loss of the script, and leaves the
  parameters alone. From parameters at 0, the training losses are then \<open>1, 2, 3, \<dots>\<close>:
  the value of every parameter at the end of each epoch.
\<close>

fun is_validate :: "event \<Rightarrow> bool" where
  "is_validate (Validate network device n_tags r) = True"
| "is_validate ev = False"

definition scripted :: "pyfloat list \<Rightarrow> int collaborators" where
  "scripted script =
     \<lparr>library_raises = (\<lambda>tr ev. None),
      create_dataloader = (\<lambda>tr sentences tags bert_model_name max_len batch_size tag_encoder.
         case sentences of None \<Rightarrow> Inl (Raised ''no sentences'') | Some xs \<Rightarrow> Inr (length xs)),
      train_fn = (\<lambda>tr network device n_tags h.
         (let h' = (\<lambda>a. if a \<in> set (parameters network) then h a + 1 else h a)
          in (Inr (Fin (case parameters network of [] \<Rightarrow> 0 | p # ps \<Rightarrow> of_int (h' p))), h'))),
      validate_fn = (\<lambda>tr network device n_tags h.
         (let k = length (filter is_validate tr)
          in if k < length script then Inr (script ! k) else Inl (Raised ''script exhausted''), h))\<rparr>"

definition toy_network :: network where
  "toy_network = [(''layer.weight'', 0), (''layer.bias'', 1)]"

definition toy_dataset :: "nat \<Rightarrow> string \<Rightarrow> string list list option" where
  \<comment> \<open>\<open>n\<close> one-token sentences\<close>
  "toy_dataset n = map_of [(''sentences'', replicate n [''Aarhus'']), (''tags'', replicate n [''B-LOC''])]"

definition fresh :: "int world" where
  \<comment> \<open>all parameters at 0, nothing called yet\<close>
  "fresh = \<lparr>heap = (\<lambda>a. 0), trace = []\<rparr>"

definition toy_run :: "pyfloat list \<Rightarrow> int \<Rightarrow> int \<Rightarrow> int option \<Rightarrow> (error + network \<times> pyfloat list) \<times> int world" where
  \<comment> \<open>\<open>train_model\<close> on 10 training and 4 validation examples\<close>
  "toy_run script train_batch_size epochs fixed_seed =
     train_model (scripted script) toy_network [''O'', ''B-LOC''] (toy_dataset 10) (toy_dataset 4)
       ''bert-base-multilingual-uncased'' 128 train_batch_size 8 epochs 0 False (float_literal (5 / 100000))
       None fixed_seed fresh"

definition toy_loop :: "pyfloat list \<Rightarrow> int \<Rightarrow> (error + loop_state) \<times> int world" where
  \<comment> \<open>the first \<open>k\<close> iterations of the epoch loop\<close>
  "toy_loop script k =
     for_each (epoch_body (scripted script) toy_network None 2 5) (py_range k)
       \<lparr>losses = [], best_loss = PInf, best_parameters = None\<rparr> fresh"

section \<open>Kinds of calls\<close>

text \<open>
  The calls of the set-up (the seeder and the data loader factory), the construction of the
  optimizer, the construction of the schedule, and the four calls of an iteration of the
  epoch loop.
\<close>

fun is_dataloader :: "event \<Rightarrow> bool" where
  "is_dataloader (Create_dataloader sentences tags bert_model_name max_len batch_size tag_encoder r) = True"
| "is_dataloader ev = False"

fun is_adamw :: "event \<Rightarrow> bool" where
  "is_adamw (AdamW params learning_rate) = True"
| "is_adamw ev = False"

fun is_schedule :: "event \<Rightarrow> bool" where
  "is_schedule (Get_linear_schedule_with_warmup warmup_steps num_training_steps) = True"
| "is_schedule ev = False"


definition toy_run_decay :: "(error + network \<times> pyfloat list) \<times> int world" where
  \<comment> \<open>one epoch of \<open>train_model\<close> with \<open>custom_weight_decay\<close>\<close>
  "toy_run_decay =
     train_model (scripted [Fin 1]) toy_network [''O'', ''B-LOC''] (toy_dataset 10) (toy_dataset 4)
       ''bert-base-multilingual-uncased'' 128 5 8 1 0 True (float_literal (5 / 100000))
       None (Some 42) fresh"

section \<open>Evaluation\<close>

text \<open>
  \<open>2 ^ 1024 \<le> \<bar>x\<bar>\<close> read off the number of bits of the integer part, so that a concrete
  overflow test does not compute the power.
\<close>

lemma double_overflows_code [code]: "double_overflows x = (1024 < bitlen \<lfloor>\<bar>x\<bar>\<rfloor>)"
proof -
  have "(2 ^ 1024 \<le> \<bar>x\<bar>) = ((2::int) ^ 1024 \<le> \<lfloor>\<bar>x\<bar>\<rfloor>)"
    by (simp add: le_floor_iff)
  also have "\<dots> = (1025 \<le> bitlen \<lfloor>\<bar>x\<bar>\<rfloor>)"
    by (simp add: bitlen_ge_iff_power)
  also have "\<dots> = (1024 < bitlen \<lfloor>\<bar>x\<bar>\<rfloor>)"
    by linarith
  finally show ?thesis unfolding double_overflows_def .
qed

section \<open>Programs and their traces\<close>

lemma bnd_Inr:
  "bnd m f w = (Inr y, w') \<longleftrightarrow> (\<exists>x w1. m w = (Inr x, w1) \<and> f x w1 = (Inr y, w'))"
  by (auto simp: bnd_def split: prod.splits sum.splits)

lemma bnd_Inl:
  "bnd m f w = (Inl e, w') \<longleftrightarrow> m w = (Inl e, w') \<or> (\<exists>x w1. m w = (Inr x, w1) \<and> f x w1 = (Inl e, w'))"
  by (auto simp: bnd_def split: prod.splits sum.splits)

lemma emit_eq: "emit ev w = (r, w') \<longleftrightarrow> r = Inr () \<and> w' = w\<lparr>trace := trace w @ [ev]\<rparr>"
  by (auto simp: emit_def)

lemma call_train_eq:
  "call_train E net dev nt w = (r, w') \<longleftrightarrow>
     train_fn E (trace w) net dev nt (heap w) = (r, heap w') \<and> trace w' = trace w @ [Train net dev nt r]"
  by (cases w') (auto simp: call_train_def split: prod.splits)

lemma call_validate_eq:
  "call_validate E net dev nt w = (r, w') \<longleftrightarrow>
     validate_fn E (trace w) net dev nt (heap w) = (r, heap w') \<and> trace w' = trace w @ [Validate net dev nt r]"
  by (cases w') (auto simp: call_validate_def split: prod.splits)

lemma epoch_body_Inr:
  assumes "epoch_body E net dev nt epochs e s w = (Inr s', w')"
  shows "\<exists>tl vl h1.
     train_fn E (trace w @ [Print_epoch (e + 1) epochs]) net dev nt (heap w) = (Inr tl, h1) \<and>
     validate_fn E (trace w @ [Print_epoch (e + 1) epochs, Train net dev nt (Inr tl)]) net dev nt h1
        = (Inr vl, heap w') \<and>
     trace w' = trace w @ epoch_events net dev nt epochs e (tl, vl) \<and>
     losses s' = losses s @ [tl] \<and>
     best_loss s' = (if float_lt vl (best_loss s) then vl else best_loss s) \<and>
     best_parameters s' = (if float_lt vl (best_loss s) then Some (state_dict net) else best_parameters s)"
proof -
  from assms obtain tl w1 vl w2 where
    t: "call_train E net dev nt (w\<lparr>trace := trace w @ [Print_epoch (e + 1) epochs]\<rparr>) = (Inr tl, w1)"
    and v: "call_validate E net dev nt w1 = (Inr vl, w2)"
    and r: "(if float_lt vl (best_loss s)
             then ret (s\<lparr>losses := losses s @ [tl], best_parameters := Some (state_dict net),
                          best_loss := vl\<rparr>)
             else ret (s\<lparr>losses := losses s @ [tl]\<rparr>))
              (w2\<lparr>trace := trace w2 @ [Print_losses tl vl]\<rparr>) = (Inr s', w')"
    by (auto simp: epoch_body_def bnd_Inr emit_eq Let_def)
  from t have t1: "train_fn E (trace w @ [Print_epoch (e + 1) epochs]) net dev nt (heap w) = (Inr tl, heap w1)"
    and t2: "trace w1 = trace w @ [Print_epoch (e + 1) epochs, Train net dev nt (Inr tl)]"
    by (simp_all add: call_train_eq)
  from v t2 have v1: "validate_fn E (trace w @ [Print_epoch (e + 1) epochs, Train net dev nt (Inr tl)])
        net dev nt (heap w1) = (Inr vl, heap w2)"
    and v2: "trace w2 = trace w @ [Print_epoch (e + 1) epochs, Train net dev nt (Inr tl),
        Validate net dev nt (Inr vl)]"
    by (simp_all add: call_validate_eq)
  from r have w': "w' = w2\<lparr>trace := trace w2 @ [Print_losses tl vl]\<rparr>"
    and s': "s' = (if float_lt vl (best_loss s)
             then s\<lparr>losses := losses s @ [tl], best_parameters := Some (state_dict net), best_loss := vl\<rparr>
             else s\<lparr>losses := losses s @ [tl]\<rparr>)"
    by (auto simp: ret_def split: if_splits)
  show ?thesis
    using t1 v1 v2 w' s' by (intro exI[of _ tl] exI[of _ vl] exI[of _ "heap w1"]) (simp add: epoch_events_def)
qed

lemma epoch_body_Inl:
  assumes "epoch_body E net dev nt epochs e s w = (Inl err, w')"
  shows "\<exists>tl. trace w' = trace w @ aborted_epoch_events net dev nt epochs e err tl"
proof -
  let ?w0 = "w\<lparr>trace := trace w @ [Print_epoch (e + 1) epochs]\<rparr>"
  from assms consider
    (train) "call_train E net dev nt ?w0 = (Inl err, w')"
  | (valid) tl w1 where "call_train E net dev nt ?w0 = (Inr tl, w1)"
      "call_validate E net dev nt w1 = (Inl err, w')"
    by (auto simp: epoch_body_def bnd_Inl bnd_Inr emit_eq Let_def ret_def split: if_splits)
  then show ?thesis
  proof cases
    case train
    then have "trace w' = trace w @ aborted_epoch_events net dev nt epochs e err None"
      by (simp add: call_train_eq)
    then show ?thesis ..
  next
    case valid
    then have "trace w' = trace w @ aborted_epoch_events net dev nt epochs e err (Some tl)"
      by (simp add: call_train_eq call_validate_eq)
    then show ?thesis ..
  qed
qed

lemma for_each_epoch_body_Inr:
  "for_each (epoch_body E net dev nt epochs) es s w = (Inr s', w') \<Longrightarrow>
     \<exists>rs. length rs = length es \<and>
          trace w' = trace w @ concat (map2 (epoch_events net dev nt epochs) es rs) \<and>
          losses s' = losses s @ map fst rs"
proof (induction es arbitrary: s w)
  case Nil
  then show ?case by simp
next
  case (Cons e es)
  from Cons.prems obtain s1 w1 where
    b: "epoch_body E net dev nt epochs e s w = (Inr s1, w1)"
    and f: "for_each (epoch_body E net dev nt epochs) es s1 w1 = (Inr s', w')"
    by (auto split: prod.splits sum.splits)
  from epoch_body_Inr[OF b] obtain tl vl where
    t1: "trace w1 = trace w @ epoch_events net dev nt epochs e (tl, vl)"
    and l1: "losses s1 = losses s @ [tl]"
    by blast
  from Cons.IH[OF f] obtain rs where
    "length rs = length es"
    "trace w' = trace w1 @ concat (map2 (epoch_events net dev nt epochs) es rs)"
    "losses s' = losses s1 @ map fst rs"
    by blast
  with t1 l1 show ?case
    by (intro exI[of _ "(tl, vl) # rs"]) simp
qed

lemma for_each_epoch_body_Inl:
  "for_each (epoch_body E net dev nt epochs) es s w = (Inl err, w') \<Longrightarrow>
     \<exists>rs tl. length rs < length es \<and>
          trace w' = trace w @ concat (map2 (epoch_events net dev nt epochs) es rs)
                       @ aborted_epoch_events net dev nt epochs (es ! length rs) err tl"
proof (induction es arbitrary: s w)
  case Nil
  then show ?case by simp
next
  case (Cons e es)
  show ?case
  proof (cases "epoch_body E net dev nt epochs e s w")
    case (Pair r1 w1)
    show ?thesis
    proof (cases r1)
      case (Inl err1)
      with Pair Cons.prems have "err1 = err" "w1 = w'" by simp_all
      with Pair Inl epoch_body_Inl[of E net dev nt epochs e s w err w']
      obtain tl where "trace w' = trace w @ aborted_epoch_events net dev nt epochs e err tl"
        by auto
      then show ?thesis
        by (intro exI[of _ "[]"] exI[of _ tl]) simp
    next
      case (Inr s1)
      with Pair Cons.prems have f: "for_each (epoch_body E net dev nt epochs) es s1 w1 = (Inl err, w')"
        by simp
      from Pair Inr epoch_body_Inr[of E net dev nt epochs e s w s1 w1] obtain tl vl where
        t1: "trace w1 = trace w @ epoch_events net dev nt epochs e (tl, vl)"
        by auto
      from Cons.IH[OF f] obtain rs tl' where
        "length rs < length es"
        "trace w' = trace w1 @ concat (map2 (epoch_events net dev nt epochs) es rs)
                       @ aborted_epoch_events net dev nt epochs (es ! length rs) err tl'"
        by blast
      with t1 show ?thesis
        by (intro exI[of _ "(tl, vl) # rs"] exI[of _ tl']) simp
    qed
  qed
qed

lemma length_py_range: "length (py_range n) = nat n"
  by (simp add: py_range_def)

lemma nth_py_range: "k < nat n \<Longrightarrow> py_range n ! k = int k"
  by (simp add: py_range_def)

lemma library_eq:
  "library E ev w = (r, w') \<longleftrightarrow>
     w' = w\<lparr>trace := trace w @ [ev]\<rparr> \<and>
     r = (case library_raises E (trace w) ev of Some e \<Rightarrow> Inl e | None \<Rightarrow> Inr ())"
  by (auto simp: library_def split: option.splits)

lemma library_Inr:
  "library E ev w = (Inr u, w') \<Longrightarrow> w' = w\<lparr>trace := trace w @ [ev]\<rparr>"
  by (simp add: library_eq)

lemma enforce_reproducibility_Inr:
  assumes "enforce_reproducibility E seed w = (Inr u, w')"
  shows "w' = w\<lparr>trace := trace w @ seeding_events seed\<rparr>"
  using assms
  by (auto simp: enforce_reproducibility_def bnd_Inr seeding_events_def dest!: library_Inr)

lemma call_create_dataloader_eq:
  "call_create_dataloader E s t b m bs enc w = (r, w') \<longleftrightarrow>
     r = create_dataloader E (trace w) s t b m bs enc \<and>
     w' = w\<lparr>trace := trace w @ [Create_dataloader s t b m bs enc r]\<rparr>"
  by (auto simp: call_create_dataloader_def Let_def)

lemma seeding_Inr:
  assumes "(case fixed_seed of None \<Rightarrow> ret () | Some seed \<Rightarrow> enforce_reproducibility E seed) w = (Inr u, w')"
  shows "w' = w\<lparr>trace := trace w @ seeds fixed_seed\<rparr>"
  using assms by (cases fixed_seed) (auto simp: seeds_def ret_def dest: enforce_reproducibility_Inr)

lemma train_model_Inr:
  assumes "train_model E network tag_encoder dataset_training dataset_validation bert_model_name max_len
     train_batch_size validation_batch_size epochs warmup_steps custom_weight_decay learning_rate
     device fixed_seed w = (Inr res, w')"
  shows "\<exists>len_tr len_va total ls wl bp.
     num_train_steps len_tr train_batch_size epochs = Inr total \<and>
     epoch_loop E network device (length tag_encoder) epochs
       (w\<lparr>trace := trace w @ seeds fixed_seed @
          [Create_dataloader (dataset_training ''sentences'') (dataset_training ''tags'')
             bert_model_name max_len train_batch_size tag_encoder (Inr len_tr),
           Create_dataloader (dataset_validation ''sentences'') (dataset_validation ''tags'')
             bert_model_name max_len validation_batch_size tag_encoder (Inr len_va),
           AdamW (optimizer_parameters network custom_weight_decay) learning_rate,
           Get_linear_schedule_with_warmup warmup_steps total]\<rparr>) = (Inr ls, wl) \<and>
     best_parameters ls = Some bp \<and>
     load_state_dict network bp wl = (Inr (), w') \<and>
     res = (network, losses ls)"
proof -
  from assms obtain w1 len_tr w2 len_va w3 total w4 w5 w6 ls wl where
    s: "(case fixed_seed of None \<Rightarrow> ret () | Some seed \<Rightarrow> enforce_reproducibility E seed) w = (Inr (), w1)"
    and d1: "call_create_dataloader E (dataset_training ''sentences'') (dataset_training ''tags'')
            bert_model_name max_len train_batch_size tag_encoder w1 = (Inr len_tr, w2)"
    and d2: "call_create_dataloader E (dataset_validation ''sentences'') (dataset_validation ''tags'')
            bert_model_name max_len validation_batch_size tag_encoder w2 = (Inr len_va, w3)"
    and n: "lift (num_train_steps len_tr train_batch_size epochs) w3 = (Inr total, w4)"
    and a: "library E (AdamW (optimizer_parameters network custom_weight_decay) learning_rate) w4 = (Inr (), w5)"
    and g: "library E (Get_linear_schedule_with_warmup warmup_steps total) w5 = (Inr (), w6)"
    and l: "epoch_loop E network device (length tag_encoder) epochs w6 = (Inr ls, wl)"
    and f: "bnd (case best_parameters ls of None \<Rightarrow> throw UnboundLocalError
              | Some bp \<Rightarrow> load_state_dict network bp) (\<lambda>_. ret (network, losses ls)) wl = (Inr res, w')"
    unfolding train_model_def Let_def bnd_Inr by (auto simp: )
  from f obtain bp where bp: "best_parameters ls = Some bp"
    and ld: "load_state_dict network bp wl = (Inr (), w')" and res: "res = (network, losses ls)"
    by (cases "best_parameters ls") (auto simp: bnd_Inr throw_def ret_def)
  have w1: "w1 = w\<lparr>trace := trace w @ seeds fixed_seed\<rparr>" using seeding_Inr[OF s] .
  from d1 have w2: "w2 = w1\<lparr>trace := trace w1 @ [Create_dataloader (dataset_training ''sentences'')
      (dataset_training ''tags'') bert_model_name max_len train_batch_size tag_encoder (Inr len_tr)]\<rparr>"
    by (simp add: call_create_dataloader_eq)
  from d2 have w3: "w3 = w2\<lparr>trace := trace w2 @ [Create_dataloader (dataset_validation ''sentences'')
      (dataset_validation ''tags'') bert_model_name max_len validation_batch_size tag_encoder (Inr len_va)]\<rparr>"
    by (simp add: call_create_dataloader_eq)
  from n have w4: "w4 = w3" and nt: "num_train_steps len_tr train_batch_size epochs = Inr total"
    by (simp_all add: lift_def)
  from a have w5: "w5 = w4\<lparr>trace := trace w4 @ [AdamW (optimizer_parameters network custom_weight_decay) learning_rate]\<rparr>"
    by (rule library_Inr)
  from g have w6: "w6 = w5\<lparr>trace := trace w5 @ [Get_linear_schedule_with_warmup warmup_steps total]\<rparr>"
    by (rule library_Inr)
  show ?thesis
    using nt l bp ld res unfolding w6 w5 w4 w3 w2 w1
    by (intro exI[of _ len_tr] exI[of _ len_va] exI[of _ total] exI[of _ ls] exI[of _ wl] exI[of _ bp]) simp
qed

lemma train_losses_append [simp]: "train_losses (a @ b) = train_losses a @ train_losses b"
  by (simp add: train_losses_def)

lemma valid_losses_append [simp]: "valid_losses (a @ b) = valid_losses a @ valid_losses b"
  by (simp add: valid_losses_def)

lemma train_losses_Nil [simp]: "train_losses [] = []"
  by (simp add: train_losses_def)

lemma valid_losses_Nil [simp]: "valid_losses [] = []"
  by (simp add: valid_losses_def)

lemma train_losses_Cons [simp]: "train_losses (ev # tr) = train_loss_of ev @ train_losses tr"
  by (simp add: train_losses_def)

lemma valid_losses_Cons [simp]: "valid_losses (ev # tr) = valid_loss_of ev @ valid_losses tr"
  by (simp add: valid_losses_def)

lemma train_losses_seeds [simp]: "train_losses (seeds fixed_seed) = []"
  by (cases fixed_seed) (simp_all add: seeds_def seeding_events_def)

lemma valid_losses_seeds [simp]: "valid_losses (seeds fixed_seed) = []"
  by (cases fixed_seed) (simp_all add: seeds_def seeding_events_def)

lemma train_losses_epoch_events [simp]:
  "train_losses (epoch_events net dev nt epochs e r) = [fst r]"
  by (simp add: epoch_events_def)

lemma valid_losses_epoch_events [simp]:
  "valid_losses (epoch_events net dev nt epochs e r) = [snd r]"
  by (simp add: epoch_events_def)

lemma train_losses_epochs:
  "length rs = length es \<Longrightarrow>
     train_losses (concat (map2 (epoch_events net dev nt epochs) es rs)) = map fst rs"
  by (induction rs es rule: list_induct2) simp_all

lemma valid_losses_epochs:
  "length rs = length es \<Longrightarrow>
     valid_losses (concat (map2 (epoch_events net dev nt epochs) es rs)) = map snd rs"
  by (induction rs es rule: list_induct2) simp_all

lemma load_state_dict_trace:
  "load_state_dict network sd w = (r, w') \<Longrightarrow> trace w' = trace w"
  by (auto simp: load_state_dict_def split: if_splits)

lemma epoch_loop_Inr:
  assumes "epoch_loop E net dev nt epochs w = (Inr ls, w')"
  shows "\<exists>rs. length rs = nat epochs \<and>
     trace w' = trace w @ concat (map2 (epoch_events net dev nt epochs) (py_range epochs) rs) \<and>
     losses ls = map fst rs"
proof -
  from assms have "for_each (epoch_body E net dev nt epochs) (py_range epochs)
      \<lparr>losses = [], best_loss = PInf, best_parameters = None\<rparr> w = (Inr ls, w')"
    by (simp add: epoch_loop_def)
  from for_each_epoch_body_Inr[OF this] show ?thesis
    unfolding length_py_range by auto
qed

lemma epoch_loop_no_epoch:
  assumes "epoch_loop E net dev nt epochs w = (Inr ls, w')" and "epochs \<le> 0"
  shows "best_parameters ls = None"
  using assms by (auto simp: epoch_loop_def py_range_def)

section \<open>The returned losses\<close>

text \<open>
  C5. Whenever \<open>train_model\<close> returns, the list of losses it returns has exactly
  \<open>epochs\<close> entries, and it is the list of the losses that the calls of the training step
  returned during the run, in the order of the calls: one per epoch, and no validation
  loss among them.
\<close>

theorem loss_trace_per_epoch:
  assumes "train_model E network tag_encoder dataset_training dataset_validation bert_model_name max_len
     train_batch_size validation_batch_size epochs warmup_steps custom_weight_decay learning_rate
     device fixed_seed w = (Inr (net, ls), w')"
  shows "int (length ls) = epochs \<and> train_losses (trace w') = train_losses (trace w) @ ls"
proof -
  from train_model_Inr[OF assms] obtain len_tr len_va total st wl bp where
    loop: "epoch_loop E network device (length tag_encoder) epochs
       (w\<lparr>trace := trace w @ seeds fixed_seed @
          [Create_dataloader (dataset_training ''sentences'') (dataset_training ''tags'')
             bert_model_name max_len train_batch_size tag_encoder (Inr len_tr),
           Create_dataloader (dataset_validation ''sentences'') (dataset_validation ''tags'')
             bert_model_name max_len validation_batch_size tag_encoder (Inr len_va),
           AdamW (optimizer_parameters network custom_weight_decay) learning_rate,
           Get_linear_schedule_with_warmup warmup_steps total]\<rparr>) = (Inr st, wl)"
    and bp: "best_parameters st = Some bp"
    and ld: "load_state_dict network bp wl = (Inr (), w')"
    and res: "(net, ls) = (network, losses st)"
    by blast
  from epoch_loop_no_epoch[OF loop] bp have pos: "0 < epochs"
    by (cases "epochs \<le> 0") auto
  from epoch_loop_Inr[OF loop] obtain rs where
    len: "length rs = nat epochs"
    and tr: "trace wl = trace w @ seeds fixed_seed @
          [Create_dataloader (dataset_training ''sentences'') (dataset_training ''tags'')
             bert_model_name max_len train_batch_size tag_encoder (Inr len_tr),
           Create_dataloader (dataset_validation ''sentences'') (dataset_validation ''tags'')
             bert_model_name max_len validation_batch_size tag_encoder (Inr len_va),
           AdamW (optimizer_parameters network custom_weight_decay) learning_rate,
           Get_linear_schedule_with_warmup warmup_steps total]
          @ concat (map2 (epoch_events network device (length tag_encoder) epochs) (py_range epochs) rs)"
    and ls: "losses st = map fst rs"
    by auto
  from len have len': "length rs = length (py_range epochs)"
    by (simp add: length_py_range)
  have "train_losses (trace w') = train_losses (trace w) @ map fst rs"
    unfolding load_state_dict_trace[OF ld] tr
    by (simp add: train_losses_epochs[OF len'])
  with res ls len pos show ?thesis by simp
qed

theorem loss_trace_per_epoch_witness:
  "fst (toy_run [Fin 1, Fin 2] 5 2 (Some 42)) = Inr (toy_network, [Fin 1, Fin 2]) \<and>
   int (length [Fin 1, Fin 2 :: pyfloat]) = 2 \<and>
   train_losses (trace (snd (toy_run [Fin 1, Fin 2] 5 2 (Some 42)))) = train_losses (trace fresh) @ [Fin 1, Fin 2]"
proof -
  have f: "fst (toy_run [Fin 1, Fin 2] 5 2 (Some 42)) = Inr (toy_network, [Fin 1, Fin 2])"
    by code_simp
  then have "toy_run [Fin 1, Fin 2] 5 2 (Some 42)
      = (Inr (toy_network, [Fin 1, Fin 2]), snd (toy_run [Fin 1, Fin 2] 5 2 (Some 42)))"
    by (metis prod.collapse)
  from loss_trace_per_epoch[OF this[unfolded toy_run_def], folded toy_run_def] f
  show ?thesis by simp
qed

section \<open>Seeding\<close>

lemma unseededI:
  "(\<And>w r w'. m w = (r, w') \<Longrightarrow> \<exists>new. trace w' = trace w @ new \<and> \<not> list_ex is_seeding new) \<Longrightarrow> unseeded m"
  by (simp add: unseeded_def)

lemma unseededD:
  "unseeded m \<Longrightarrow> m w = (r, w') \<Longrightarrow> \<exists>new. trace w' = trace w @ new \<and> \<not> list_ex is_seeding new"
  by (simp add: unseeded_def)

lemma unseeded_ret: "unseeded (ret x)"
  by (rule unseededI) (simp add: ret_def)

lemma unseeded_throw: "unseeded (throw e)"
  by (rule unseededI) (simp add: throw_def)

lemma unseeded_lift: "unseeded (lift x)"
  by (rule unseededI) (simp add: lift_def)

lemma unseeded_emit: "\<not> is_seeding ev \<Longrightarrow> unseeded (emit ev)"
  by (rule unseededI) (auto simp: emit_def)

lemma unseeded_library: "\<not> is_seeding ev \<Longrightarrow> unseeded (library E ev)"
  by (rule unseededI) (auto simp: library_eq)

lemma unseeded_call_create_dataloader: "unseeded (call_create_dataloader E s t b m bs enc)"
  by (rule unseededI) (auto simp: call_create_dataloader_eq)

lemma unseeded_call_train: "unseeded (call_train E net dev nt)"
  by (rule unseededI) (auto simp: call_train_eq)

lemma unseeded_call_validate: "unseeded (call_validate E net dev nt)"
  by (rule unseededI) (auto simp: call_validate_eq)

lemma unseeded_load_state_dict: "unseeded (load_state_dict net sd)"
  by (rule unseededI) (auto dest: load_state_dict_trace)

lemma unseeded_bnd:
  assumes "unseeded m" and "\<And>x. unseeded (f x)"
  shows "unseeded (bnd m f)"
proof (rule unseededI)
  fix w r w'
  assume run: "bnd m f w = (r, w')"
  obtain r1 w1 where m: "m w = (r1, w1)" by (cases "m w")
  from unseededD[OF assms(1) m] obtain new1 where
    n1: "trace w1 = trace w @ new1" "\<not> list_ex is_seeding new1" by blast
  show "\<exists>new. trace w' = trace w @ new \<and> \<not> list_ex is_seeding new"
  proof (cases r1)
    case (Inl e)
    with run m have "w' = w1" by (simp add: bnd_def)
    with n1 show ?thesis by blast
  next
    case (Inr x)
    with run m have "f x w1 = (r, w')" by (simp add: bnd_def)
    from unseededD[OF assms(2) this] obtain new2 where
      "trace w' = trace w1 @ new2" "\<not> list_ex is_seeding new2" by blast
    with n1 have "trace w' = trace w @ (new1 @ new2) \<and> \<not> list_ex is_seeding (new1 @ new2)"
      by simp
    then show ?thesis by blast
  qed
qed

lemma unseeded_epoch_body: "unseeded (epoch_body E net dev nt epochs e s)"
  unfolding epoch_body_def Let_def
  by (intro unseeded_bnd unseeded_emit unseeded_call_train unseeded_call_validate)
     (simp_all add: unseeded_ret)

lemma unseeded_for_each:
  assumes "\<And>i s. unseeded (body i s)"
  shows "unseeded (for_each body es s)"
proof (induction es arbitrary: s)
  case Nil
  show ?case by (rule unseededI) simp
next
  case (Cons e es)
  have "for_each body (e # es) s = bnd (body e s) (for_each body es)"
    by (rule ext) (simp add: bnd_def split: prod.splits sum.splits)
  then show ?case using assms Cons.IH by (simp add: unseeded_bnd)
qed

lemma unseeded_epoch_loop: "unseeded (epoch_loop E net dev nt epochs)"
  unfolding epoch_loop_def by (rule unseeded_for_each) (rule unseeded_epoch_body)

lemma unseeded_train_model_None:
  "unseeded (train_model E network tag_encoder dataset_training dataset_validation bert_model_name max_len
     train_batch_size validation_batch_size epochs warmup_steps custom_weight_decay learning_rate
     device None)"
  unfolding train_model_def Let_def
  by (intro unseeded_bnd unseeded_call_create_dataloader unseeded_lift unseeded_library
        unseeded_epoch_loop unseeded_ret)
     (simp_all add: unseeded_ret unseeded_throw unseeded_load_state_dict split: option.splits)

lemma train_model_Some:
  "train_model E network tag_encoder dataset_training dataset_validation bert_model_name max_len
     train_batch_size validation_batch_size epochs warmup_steps custom_weight_decay learning_rate
     device (Some seed) w =
   (case enforce_reproducibility E seed w of
      (Inl e, w1) \<Rightarrow> (Inl e, w1)
    | (Inr u, w1) \<Rightarrow>
        train_model E network tag_encoder dataset_training dataset_validation bert_model_name max_len
          train_batch_size validation_batch_size epochs warmup_steps custom_weight_decay learning_rate
          device None w1)"
  by (simp add: train_model_def bnd_def ret_def split: prod.splits sum.splits)

lemma enforce_reproducibility_trace:
  assumes "enforce_reproducibility E seed w = (r, w')"
  shows "\<exists>k. 0 < k \<and> k \<le> 6 \<and> trace w' = trace w @ take k (seeding_events seed) \<and>
            (case r of Inr u \<Rightarrow> k = 6 | Inl e \<Rightarrow> True)"
proof (cases r)
  case (Inr u)
  with assms have "trace w' = trace w @ take 6 (seeding_events seed)"
    by (auto dest!: enforce_reproducibility_Inr simp: seeding_events_def)
  with Inr show ?thesis by (intro exI[of _ 6]) simp
next
  case (Inl e)
  let ?t = "\<lambda>k. trace w' = trace w @ take k (seeding_events seed)"
  from assms Inl have "?t 1 \<or> ?t 2 \<or> ?t 3 \<or> ?t 4 \<or> ?t 5 \<or> ?t 6"
    by (auto simp: enforce_reproducibility_def bnd_def library_def seeding_events_def
        split: option.splits)
  then consider "?t 1" | "?t 2" | "?t 3" | "?t 4" | "?t 5" | "?t 6" by blast
  then show ?thesis
  proof cases
    case 1 then show ?thesis using Inl by (intro exI[of _ 1]) simp
  next
    case 2 then show ?thesis using Inl by (intro exI[of _ 2]) simp
  next
    case 3 then show ?thesis using Inl by (intro exI[of _ 3]) simp
  next
    case 4 then show ?thesis using Inl by (intro exI[of _ 4]) simp
  next
    case 5 then show ?thesis using Inl by (intro exI[of _ 5]) simp
  next
    case 6 then show ?thesis using Inl by (intro exI[of _ 6]) simp
  qed
qed

text \<open>
  C10. The seeder is called if and only if \<open>fixed_seed\<close> is not \<open>None\<close>. With
  \<open>fixed_seed = None\<close>, whatever the collaborators do and however the run ends, no call in
  the whole run seeds a random number generator or assigns a cuDNN flag. With
  \<open>fixed_seed = Some seed\<close>, the run starts with the calls of the seeder, in the order of
  the source and with this seed, all six of them unless one of them raises and ends the run
  there; no data loader is built before them, and nothing after them seeds again.
\<close>

theorem seeder_runs_iff_fixed_seed:
  assumes "train_model E network tag_encoder dataset_training dataset_validation bert_model_name max_len
     train_batch_size validation_batch_size epochs warmup_steps custom_weight_decay learning_rate
     device fixed_seed w = (r, w')"
  shows "case fixed_seed of
      None \<Rightarrow> \<exists>new. trace w' = trace w @ new \<and> \<not> list_ex is_seeding new
    | Some seed \<Rightarrow>
        \<exists>k rest. 0 < k \<and> k \<le> 6 \<and> trace w' = trace w @ take k (seeding_events seed) @ rest \<and>
          \<not> list_ex is_seeding rest \<and> (k < 6 \<longrightarrow> rest = [] \<and> (\<exists>e. r = Inl e))"
proof (cases fixed_seed)
  case None
  with assms unseededD[OF unseeded_train_model_None] show ?thesis by simp
next
  case (Some seed)
  obtain r1 w1 where e: "enforce_reproducibility E seed w = (r1, w1)"
    by (cases "enforce_reproducibility E seed w")
  from enforce_reproducibility_trace[OF e] obtain k where
    k: "0 < k" "k \<le> 6" "trace w1 = trace w @ take k (seeding_events seed)"
      "case r1 of Inr u \<Rightarrow> k = 6 | Inl e \<Rightarrow> True"
    by blast
  show ?thesis
  proof (cases r1)
    case (Inl err)
    with assms Some e have "r = Inl err" "w' = w1" by (simp_all add: train_model_Some)
    with k Some show ?thesis
      by (simp, intro exI[of _ k] exI[of _ "[]"]) simp
  next
    case (Inr u)
    with assms Some e have "train_model E network tag_encoder dataset_training dataset_validation
      bert_model_name max_len train_batch_size validation_batch_size epochs warmup_steps
      custom_weight_decay learning_rate device None w1 = (r, w')"
      by (simp add: train_model_Some)
    from unseededD[OF unseeded_train_model_None this] obtain rest where
      "trace w' = trace w1 @ rest" "\<not> list_ex is_seeding rest" by blast
    with k Inr Some show ?thesis
      by (simp, intro exI[of _ 6] exI[of _ rest]) simp
  qed
qed

theorem seeder_runs_iff_fixed_seed_witness:
  "fst (toy_run [Fin 1] 5 1 None) = Inr (toy_network, [Fin 1]) \<and>
   \<not> list_ex is_seeding (trace (snd (toy_run [Fin 1] 5 1 None))) \<and>
   fst (toy_run [Fin 1] 5 1 (Some 42)) = Inr (toy_network, [Fin 1]) \<and>
   take 6 (trace (snd (toy_run [Fin 1] 5 1 (Some 42)))) = seeding_events 42"
proof -
  have a: "fst (toy_run [Fin 1] 5 1 None) = Inr (toy_network, [Fin 1])"
    by code_simp
  have b: "fst (toy_run [Fin 1] 5 1 (Some 42)) = Inr (toy_network, [Fin 1])"
    by code_simp
  have "toy_run [Fin 1] 5 1 None = (fst (toy_run [Fin 1] 5 1 None), snd (toy_run [Fin 1] 5 1 None))"
    by simp
  from seeder_runs_iff_fixed_seed[OF this[unfolded toy_run_def], folded toy_run_def]
  have c: "\<not> list_ex is_seeding (trace (snd (toy_run [Fin 1] 5 1 None)))"
    by (auto simp: fresh_def)
  have "toy_run [Fin 1] 5 1 (Some 42)
      = (fst (toy_run [Fin 1] 5 1 (Some 42)), snd (toy_run [Fin 1] 5 1 (Some 42)))"
    by simp
  from seeder_runs_iff_fixed_seed[OF this[unfolded toy_run_def], folded toy_run_def] b
  have d: "take 6 (trace (snd (toy_run [Fin 1] 5 1 (Some 42)))) = seeding_events 42"
    by (auto simp: fresh_def seeding_events_def)
  from a b c d show ?thesis by simp
qed

section \<open>The best loss\<close>

lemma float_lt_PInf_iff: "float_lt v PInf \<longleftrightarrow> v \<noteq> NaN \<and> v \<noteq> PInf"
  by (cases v) simp_all

lemma float_lt_not_NaN: "float_lt x y \<Longrightarrow> x \<noteq> NaN \<and> y \<noteq> NaN"
  by (cases x; cases y) simp_all

lemma float_le_refl: "x \<noteq> NaN \<Longrightarrow> float_le x x"
  by (cases x) simp_all

lemma float_lt_le_trans: "float_lt x y \<Longrightarrow> float_le y z \<Longrightarrow> float_le x z"
  by (cases x; cases y; cases z) auto

lemma float_lt_le_trans': "float_lt x y \<Longrightarrow> float_le y z \<Longrightarrow> float_lt x z"
  by (cases x; cases y; cases z) auto

lemma float_not_lt: "\<not> float_lt x y \<Longrightarrow> x \<noteq> NaN \<Longrightarrow> y \<noteq> NaN \<Longrightarrow> float_le y x"
  by (cases x; cases y) auto

lemma float_le_not_lt: "float_le y x \<Longrightarrow> \<not> float_lt x y"
  by (cases x; cases y) auto

lemma is_min_of_not_NaN: "is_min_of b (PInf # filter (\<lambda>u. u \<noteq> NaN) vs) \<Longrightarrow> b \<noteq> NaN"
  by (auto simp: is_min_of_def)

lemma is_min_of_start: "is_min_of PInf (PInf # filter (\<lambda>u. u \<noteq> NaN) [])"
  by (simp add: is_min_of_def)

lemma is_min_of_step:
  assumes "is_min_of b (PInf # filter (\<lambda>u. u \<noteq> NaN) vs)"
  shows "is_min_of (if float_lt v b then v else b) (PInf # filter (\<lambda>u. u \<noteq> NaN) (vs @ [v]))"
proof (cases "float_lt v b")
  case True
  then have v: "v \<noteq> NaN" by (simp add: float_lt_not_NaN)
  from assms True have "list_all (float_le v) (PInf # filter (\<lambda>u. u \<noteq> NaN) vs)"
    by (auto simp: is_min_of_def list_all_iff intro: float_lt_le_trans)
  with True v show ?thesis
    by (simp add: is_min_of_def float_le_refl)
next
  case False
  from assms have b: "b \<noteq> NaN" by (rule is_min_of_not_NaN)
  from False b have "v \<noteq> NaN \<Longrightarrow> float_le b v" by (simp add: float_not_lt)
  with assms False show ?thesis
    by (auto simp: is_min_of_def)
qed

lemma improves_iff:
  assumes "is_min_of b (PInf # filter (\<lambda>u. u \<noteq> NaN) vs)"
  shows "improves v vs \<longleftrightarrow> float_lt v b"
proof
  assume i: "improves v vs"
  from assms have "b = PInf \<or> (b \<in> set vs \<and> b \<noteq> NaN)" by (auto simp: is_min_of_def)
  with i show "float_lt v b" by (auto simp: improves_def list_all_iff)
next
  assume l: "float_lt v b"
  from assms have "float_le b PInf" and "\<And>u. u \<in> set vs \<Longrightarrow> u \<noteq> NaN \<Longrightarrow> float_le b u"
    by (auto simp: is_min_of_def list_all_iff)
  with l show "improves v vs"
    by (auto simp: improves_def list_all_iff intro: float_lt_le_trans')
qed

lemma for_each_best_loss:
  assumes "for_each (epoch_body E net dev nt epochs) es s w = (Inr s', w')"
    and "valid_losses (trace w) = pre @ vs"
    and "is_min_of (best_loss s) (PInf # filter (\<lambda>u. u \<noteq> NaN) vs)"
  shows "\<exists>vs'. length vs' = length es \<and> valid_losses (trace w') = pre @ vs @ vs' \<and>
           is_min_of (best_loss s') (PInf # filter (\<lambda>u. u \<noteq> NaN) (vs @ vs'))"
  using assms
proof (induction es arbitrary: s w vs)
  case Nil
  then show ?case by simp
next
  case (Cons e es)
  from Cons.prems(1) obtain s1 w1 where
    b: "epoch_body E net dev nt epochs e s w = (Inr s1, w1)"
    and f: "for_each (epoch_body E net dev nt epochs) es s1 w1 = (Inr s', w')"
    by (auto split: prod.splits sum.splits)
  from epoch_body_Inr[OF b] obtain tl vl where
    t1: "trace w1 = trace w @ epoch_events net dev nt epochs e (tl, vl)"
    and b1: "best_loss s1 = (if float_lt vl (best_loss s) then vl else best_loss s)"
    by blast
  from t1 Cons.prems(2) have v1: "valid_losses (trace w1) = pre @ (vs @ [vl])" by simp
  from is_min_of_step[OF Cons.prems(3)] b1
  have m1: "is_min_of (best_loss s1) (PInf # filter (\<lambda>u. u \<noteq> NaN) (vs @ [vl]))" by simp
  from Cons.IH[OF f v1 m1] obtain vs' where
    "length vs' = length es" "valid_losses (trace w') = pre @ (vs @ [vl]) @ vs'"
    "is_min_of (best_loss s') (PInf # filter (\<lambda>u. u \<noteq> NaN) ((vs @ [vl]) @ vs'))"
    by blast
  then show ?case by (intro exI[of _ "vl # vs'"]) simp
qed

lemma for_each_append:
  "for_each body (xs @ ys) s w =
     (case for_each body xs s w of
        (Inl e, w') \<Rightarrow> (Inl e, w')
      | (Inr s', w') \<Rightarrow> for_each body ys s' w')"
  by (induction xs arbitrary: s w) (auto split: prod.splits sum.splits)

lemma py_range_split:
  "0 \<le> k \<Longrightarrow> k < n \<Longrightarrow> py_range n = py_range k @ k # [k + 1..n - 1]"
  unfolding py_range_def
  by (metis upto_rec1 upto_split1 zle_diff1_eq)

lemma epoch_loop_passes_through:
  assumes "0 \<le> k" and "k < epochs"
  shows "epoch_loop E net dev nt epochs w =
     (case for_each (epoch_body E net dev nt epochs) (py_range k)
             \<lparr>losses = [], best_loss = PInf, best_parameters = None\<rparr> w of
        (Inl e, w1) \<Rightarrow> (Inl e, w1)
      | (Inr ls, w1) \<Rightarrow>
          (case epoch_body E net dev nt epochs k ls w1 of
             (Inl e, w2) \<Rightarrow> (Inl e, w2)
           | (Inr ls', w2) \<Rightarrow> for_each (epoch_body E net dev nt epochs) [k + 1..epochs - 1] ls' w2))"
  unfolding epoch_loop_def py_range_split[OF assms] for_each_append
  by (simp split: prod.splits sum.splits)

text \<open>
  C4, as amended. Throughout the epoch loop, that is after any number \<open>k\<close> of completed
  iterations, the tracked best loss is the minimum of \<open>+\<infinity>\<close>, its initial value, and the
  validation losses observed so far that are not NaN. In the next iteration, with the
  validation loss \<open>v\<close>, the best loss becomes \<open>v\<close> and the snapshot is captured again if \<open>v\<close>
  is strictly less than \<open>+\<infinity>\<close> and than every loss seen before that is not NaN; otherwise
  neither changes. So there is at most one update per epoch, and a NaN never causes one.
  By \<open>epoch_loop_passes_through\<close> these are the states the loop of \<open>train_model\<close> goes
  through.
\<close>

theorem best_loss_is_running_minimum:
  assumes "for_each (epoch_body E network device n_tags epochs) (py_range k)
             \<lparr>losses = [], best_loss = PInf, best_parameters = None\<rparr> w = (Inr ls, w1)"
  shows "\<exists>vs. length vs = nat k \<and> valid_losses (trace w1) = valid_losses (trace w) @ vs \<and>
      is_min_of (best_loss ls) (PInf # filter (\<lambda>u. u \<noteq> NaN) vs) \<and>
      (\<forall>ls' w2. epoch_body E network device n_tags epochs k ls w1 = (Inr ls', w2) \<longrightarrow>
         (\<exists>v. valid_losses (trace w2) = valid_losses (trace w1) @ [v] \<and>
            (if improves v vs
             then best_loss ls' = v \<and> best_parameters ls' = Some (state_dict network)
             else best_loss ls' = best_loss ls \<and> best_parameters ls' = best_parameters ls)))"
proof -
  from for_each_best_loss[OF assms, of "valid_losses (trace w)" "[]"] obtain vs where
    len: "length vs = nat k"
    and vl: "valid_losses (trace w1) = valid_losses (trace w) @ vs"
    and m: "is_min_of (best_loss ls) (PInf # filter (\<lambda>u. u \<noteq> NaN) vs)"
    by (auto simp: is_min_of_def length_py_range)
  have "\<exists>v. valid_losses (trace w2) = valid_losses (trace w1) @ [v] \<and>
            (if improves v vs
             then best_loss ls' = v \<and> best_parameters ls' = Some (state_dict network)
             else best_loss ls' = best_loss ls \<and> best_parameters ls' = best_parameters ls)"
    if "epoch_body E network device n_tags epochs k ls w1 = (Inr ls', w2)" for ls' w2
  proof -
    from epoch_body_Inr[OF that] obtain tl v where
      "trace w2 = trace w1 @ epoch_events network device n_tags epochs k (tl, v)"
      "best_loss ls' = (if float_lt v (best_loss ls) then v else best_loss ls)"
      "best_parameters ls' = (if float_lt v (best_loss ls) then Some (state_dict network)
          else best_parameters ls)"
      by blast
    then show ?thesis
      by (intro exI[of _ v]) (simp add: improves_iff[OF m])
  qed
  with len vl m show ?thesis by blast
qed

theorem best_loss_is_running_minimum_witness:
  "fst (toy_loop [Fin 2, Fin 1] 1)
     = Inr \<lparr>losses = [Fin 1], best_loss = Fin 2, best_parameters = Some toy_network\<rparr> \<and>
   valid_losses (trace (snd (toy_loop [Fin 2, Fin 1] 1))) = [Fin 2] \<and>
   is_min_of (Fin 2) (PInf # filter (\<lambda>u. u \<noteq> NaN) [Fin 2]) \<and>
   fst (epoch_body (scripted [Fin 2, Fin 1]) toy_network None 2 5 1
          \<lparr>losses = [Fin 1], best_loss = Fin 2, best_parameters = Some toy_network\<rparr>
          (snd (toy_loop [Fin 2, Fin 1] 1)))
     = Inr \<lparr>losses = [Fin 1, Fin 2], best_loss = Fin 1, best_parameters = Some toy_network\<rparr> \<and>
   improves (Fin 1) [Fin 2]"
proof -
  let ?w1 = "snd (toy_loop [Fin 2, Fin 1] 1)"
  let ?ls = "\<lparr>losses = [Fin 1], best_loss = Fin 2, best_parameters = Some toy_network\<rparr>"
  let ?ls' = "\<lparr>losses = [Fin 1, Fin 2], best_loss = Fin 1, best_parameters = Some toy_network\<rparr>"
  let ?b = "epoch_body (scripted [Fin 2, Fin 1]) toy_network None 2 5 1 ?ls ?w1"
  have f: "fst (toy_loop [Fin 2, Fin 1] 1) = Inr ?ls"
    by code_simp
  have v: "valid_losses (trace ?w1) = [Fin 2]"
    by code_simp
  have g: "fst ?b = Inr ?ls'"
    by code_simp
  have v2: "valid_losses (trace (snd ?b)) = [Fin 2, Fin 1]"
    by code_simp
  from f have run: "toy_loop [Fin 2, Fin 1] 1 = (Inr ?ls, ?w1)"
    by (metis prod.collapse)
  from g have step: "?b = (Inr ?ls', snd ?b)"
    by (metis prod.collapse)
  from best_loss_is_running_minimum[OF run[unfolded toy_loop_def], folded toy_loop_def] obtain vs where
    vs: "valid_losses (trace ?w1) = valid_losses (trace fresh) @ vs"
    and m: "is_min_of (best_loss ?ls) (PInf # filter (\<lambda>u. u \<noteq> NaN) vs)"
    and n: "\<forall>ls' w2. epoch_body (scripted [Fin 2, Fin 1]) toy_network None 2 5 1 ?ls ?w1 = (Inr ls', w2) \<longrightarrow>
         (\<exists>v. valid_losses (trace w2) = valid_losses (trace ?w1) @ [v] \<and>
            (if improves v vs
             then best_loss ls' = v \<and> best_parameters ls' = Some (state_dict toy_network)
             else best_loss ls' = best_loss ?ls \<and> best_parameters ls' = best_parameters ?ls))"
    by blast
  from vs v have vs': "vs = [Fin 2]" by (simp add: fresh_def)
  from n[rule_format, OF step] v v2 vs' have i: "improves (Fin 1) [Fin 2]"
    by (auto split: if_splits)
  from f v g m vs' i show ?thesis by simp
qed

text \<open>
  As the claim is written it fails on a NaN. With the validation losses NaN, 1: after the
  first epoch the best loss is still \<open>+\<infinity>\<close>, which is not the minimum of the losses
  observed, with or without the initial \<open>+\<infinity>\<close> among them; in the second epoch the best
  loss is updated and the snapshot captured although 1 is not strictly less than the NaN
  seen before.
\<close>

theorem best_loss_nan_counterexample:
  "fst (toy_loop [NaN, Fin 1] 1)
     = Inr \<lparr>losses = [Fin 1], best_loss = PInf, best_parameters = None\<rparr> \<and>
   valid_losses (trace (snd (toy_loop [NaN, Fin 1] 1))) = [NaN] \<and>
   \<not> is_min_of PInf [NaN] \<and>
   \<not> is_min_of PInf [PInf, NaN] \<and>
   fst (toy_loop [NaN, Fin 1] 2)
     = Inr \<lparr>losses = [Fin 1, Fin 2], best_loss = Fin 1, best_parameters = Some toy_network\<rparr> \<and>
   valid_losses (trace (snd (toy_loop [NaN, Fin 1] 2))) = [NaN, Fin 1] \<and>
   \<not> float_lt (Fin 1) NaN"
proof -
  have "fst (toy_loop [NaN, Fin 1] 1)
     = Inr \<lparr>losses = [Fin 1], best_loss = PInf, best_parameters = None\<rparr>"
    by code_simp
  moreover have "valid_losses (trace (snd (toy_loop [NaN, Fin 1] 1))) = [NaN]"
    by code_simp
  moreover have "fst (toy_loop [NaN, Fin 1] 2)
     = Inr \<lparr>losses = [Fin 1, Fin 2], best_loss = Fin 1, best_parameters = Some toy_network\<rparr>"
    by code_simp
  moreover have "valid_losses (trace (snd (toy_loop [NaN, Fin 1] 2))) = [NaN, Fin 1]"
    by code_simp
  ultimately show ?thesis by (simp add: is_min_of_def)
qed

section \<open>Non-finite validation losses\<close>

text \<open>
  C9, as amended. Nothing in an iteration looks at whether the validation loss is finite:
  it is compared with the best loss and that is all. A NaN or \<open>+\<infinity>\<close> is never less than
  the best loss, whatever it is, so neither the best loss nor the snapshot changes, in the
  first epoch as in any other. \<open>-\<infinity>\<close> is less than every finite best loss and than
  \<open>+\<infinity>\<close>: it becomes the recorded best and the snapshot is captured, in the first epoch
  and in any later one.
\<close>

theorem non_finite_validation_loss:
  assumes "epoch_body E network device n_tags epochs epoch ls w = (Inr ls', w')"
  shows "\<exists>v. valid_losses (trace w') = valid_losses (trace w) @ [v] \<and>
     (v = NaN \<or> v = PInf \<longrightarrow>
        best_loss ls' = best_loss ls \<and> best_parameters ls' = best_parameters ls) \<and>
     (v = NInf \<and> ((\<exists>x. best_loss ls = Fin x) \<or> best_loss ls = PInf) \<longrightarrow>
        best_loss ls' = NInf \<and> best_parameters ls' = Some (state_dict network))"
proof -
  from epoch_body_Inr[OF assms] obtain tl v where
    t: "trace w' = trace w @ epoch_events network device n_tags epochs epoch (tl, v)"
    and b: "best_loss ls' = (if float_lt v (best_loss ls) then v else best_loss ls)"
    and p: "best_parameters ls' = (if float_lt v (best_loss ls) then Some (state_dict network)
          else best_parameters ls)"
    by blast
  have "\<not> float_lt NaN (best_loss ls)" "\<not> float_lt PInf (best_loss ls)"
    by (cases "best_loss ls"; simp)+
  moreover have "float_lt NInf (Fin x)" for x by simp
  moreover have "float_lt NInf PInf" by simp
  ultimately show ?thesis
    using t b p by (intro exI[of _ v]) auto
qed

theorem non_finite_validation_loss_witness:
  "valid_losses (trace (snd (toy_loop [Fin 1, NInf] 1))) = [Fin 1] \<and>
   valid_losses (trace (snd (epoch_body (scripted [Fin 1, NInf]) toy_network None 2 5 1
          \<lparr>losses = [Fin 1], best_loss = Fin 1, best_parameters = Some toy_network\<rparr>
          (snd (toy_loop [Fin 1, NInf] 1))))) = [Fin 1, NInf] \<and>
   best_loss (projr (fst (epoch_body (scripted [Fin 1, NInf]) toy_network None 2 5 1
          \<lparr>losses = [Fin 1], best_loss = Fin 1, best_parameters = Some toy_network\<rparr>
          (snd (toy_loop [Fin 1, NInf] 1))))) = NInf \<and>
   valid_losses (trace (snd (toy_loop [NaN] 1))) = [NaN] \<and>
   best_loss (projr (fst (toy_loop [NaN] 1))) = PInf"
proof -
  let ?w1 = "snd (toy_loop [Fin 1, NInf] 1)"
  let ?ls = "\<lparr>losses = [Fin 1], best_loss = Fin 1, best_parameters = Some toy_network\<rparr>"
  let ?b = "epoch_body (scripted [Fin 1, NInf]) toy_network None 2 5 1 ?ls ?w1"
  have v1: "valid_losses (trace ?w1) = [Fin 1]"
    by code_simp
  have v2: "valid_losses (trace (snd ?b)) = [Fin 1, NInf]"
    by code_simp
  have "\<not> isl (fst ?b)"
    by code_simp
  then have step: "?b = (Inr (projr (fst ?b)), snd ?b)"
    by (metis prod.collapse sum.collapse(2))
  from non_finite_validation_loss[OF step] v1 v2
  have a: "best_loss (projr (fst ?b)) = NInf"
    by auto
  let ?n = "epoch_body (scripted [NaN]) toy_network None 2 5 0
      \<lparr>losses = [], best_loss = PInf, best_parameters = None\<rparr> fresh"
  have n: "toy_loop [NaN] 1 = ?n"
    by (simp add: toy_loop_def py_range_def upto.simps split: prod.splits sum.splits)
  have v3: "valid_losses (trace (snd ?n)) = [NaN]"
    by code_simp
  have "\<not> isl (fst ?n)"
    by code_simp
  then have step': "?n = (Inr (projr (fst ?n)), snd ?n)"
    by (metis prod.collapse sum.collapse(2))
  from non_finite_validation_loss[OF step'] v3
  have b: "best_loss (projr (fst ?n)) = PInf"
    by (auto simp: fresh_def)
  from v1 v2 a v3 b show ?thesis by (simp add: n)
qed

text \<open>
  As the claim is written it fails on \<open>-\<infinity>\<close>: with the validation losses 1, \<open>-\<infinity>\<close>
  the best loss is the finite 1 after the first epoch, and the non-finite loss of the second
  epoch compares less than it and becomes the recorded best.
\<close>

theorem non_finite_validation_loss_counterexample:
  "fst (toy_loop [Fin 1, NInf] 1)
     = Inr \<lparr>losses = [Fin 1], best_loss = Fin 1, best_parameters = Some toy_network\<rparr> \<and>
   fst (toy_loop [Fin 1, NInf] 2)
     = Inr \<lparr>losses = [Fin 1, Fin 2], best_loss = NInf, best_parameters = Some toy_network\<rparr> \<and>
   valid_losses (trace (snd (toy_loop [Fin 1, NInf] 2))) = [Fin 1, NInf] \<and>
   float_lt NInf (Fin 1)"
proof -
  have "fst (toy_loop [Fin 1, NInf] 1)
     = Inr \<lparr>losses = [Fin 1], best_loss = Fin 1, best_parameters = Some toy_network\<rparr>"
    by code_simp
  moreover have "fst (toy_loop [Fin 1, NInf] 2)
     = Inr \<lparr>losses = [Fin 1, Fin 2], best_loss = NInf, best_parameters = Some toy_network\<rparr>"
    by code_simp
  moreover have "valid_losses (trace (snd (toy_loop [Fin 1, NInf] 2))) = [Fin 1, NInf]"
    by code_simp
  ultimately show ?thesis by simp
qed

section \<open>The snapshot and the restoration\<close>

lemma fold_copy_self:
  "\<forall>(n, p) \<in> set xs. sd n = Some p \<Longrightarrow>
     fold (\<lambda>(n, p) h. case sd n of Some q \<Rightarrow> h(p := h q) | None \<Rightarrow> h) xs h = h"
  by (induction xs arbitrary: h) auto

lemma load_state_dict_own:
  assumes "distinct (map fst (named_parameters network))"
  shows "load_state_dict network (state_dict network) w = (Inr (), w)"
proof -
  have "fold (\<lambda>(n, p) h. case map_of (named_parameters network) n of Some q \<Rightarrow> h(p := h q) | None \<Rightarrow> h)
          (named_parameters network) (heap w) = heap w"
    using assms by (intro fold_copy_self) auto
  then show ?thesis
    by (simp add: load_state_dict_def state_dict_def)
qed

lemma for_each_best_parameters:
  "for_each (epoch_body E net dev nt epochs) es s w = (Inr s', w') \<Longrightarrow>
     best_parameters s' = best_parameters s \<or> best_parameters s' = Some (state_dict net)"
proof (induction es arbitrary: s w)
  case Nil
  then show ?case by simp
next
  case (Cons e es)
  from Cons.prems obtain s1 w1 where
    b: "epoch_body E net dev nt epochs e s w = (Inr s1, w1)"
    and f: "for_each (epoch_body E net dev nt epochs) es s1 w1 = (Inr s', w')"
    by (auto split: prod.splits sum.splits)
  from epoch_body_Inr[OF b] have
    "best_parameters s1 = best_parameters s \<or> best_parameters s1 = Some (state_dict net)"
    by auto
  with Cons.IH[OF f] show ?case by auto
qed

lemma epoch_loop_best_parameters:
  assumes "epoch_loop E net dev nt epochs w = (Inr ls, w')"
  shows "best_parameters ls = None \<or> best_parameters ls = Some (state_dict net)"
  using assms for_each_best_parameters[of E net dev nt epochs "py_range epochs"
      "\<lparr>losses = [], best_loss = PInf, best_parameters = None\<rparr>" w ls w']
  by (simp add: epoch_loop_def)

text \<open>
  The restoration writes nothing: when \<open>train_model\<close> returns, the world it leaves is the
  world in which the epoch loop ended, so the parameters of the returned network are those
  the last training pass left, whichever epoch had the least validation loss.
\<close>

lemma train_model_returns_last_epoch:
  assumes "train_model E network tag_encoder dataset_training dataset_validation bert_model_name max_len
     train_batch_size validation_batch_size epochs warmup_steps custom_weight_decay learning_rate
     device fixed_seed w = (Inr res, w')"
    and "distinct (map fst (named_parameters network))"
  shows "\<exists>w0 ls. epoch_loop E network device (length tag_encoder) epochs w0 = (Inr ls, w')"
proof -
  from train_model_Inr[OF assms(1)] obtain w0 ls wl bp where
    loop: "epoch_loop E network device (length tag_encoder) epochs w0 = (Inr ls, wl)"
    and bp: "best_parameters ls = Some bp"
    and ld: "load_state_dict network bp wl = (Inr (), w')"
    by blast
  from epoch_loop_best_parameters[OF loop] bp have "bp = state_dict network" by auto
  with ld load_state_dict_own[OF assms(2), of wl] have "w' = wl" by simp
  with loop show ?thesis by blast
qed

text \<open>
  \<open>train_model\<close> returns only from a run of at least one epoch in which some validation
  loss was less than \<open>+\<infinity>\<close>: in every other run that reaches the end of the loop,
  \<open>best_parameters\<close> is still unbound there and reading it raises.
\<close>

lemma train_model_returns_after_improvement:
  assumes "train_model E network tag_encoder dataset_training dataset_validation bert_model_name max_len
     train_batch_size validation_batch_size epochs warmup_steps custom_weight_decay learning_rate
     device fixed_seed w = (Inr res, w')"
  shows "0 < epochs \<and> list_ex (\<lambda>v. float_lt v PInf) (valid_losses (trace w'))"
proof -
  from train_model_Inr[OF assms] obtain w0 ls wl bp where
    loop: "epoch_loop E network device (length tag_encoder) epochs w0 = (Inr ls, wl)"
    and bp: "best_parameters ls = Some bp"
    and ld: "load_state_dict network bp wl = (Inr (), w')"
    by blast
  from epoch_loop_no_epoch[OF loop] bp have pos: "0 < epochs"
    by (cases "epochs \<le> 0") auto
  have "list_ex (\<lambda>v. float_lt v PInf) (valid_losses (trace wl))"
  proof (rule ccontr)
    assume n: "\<not> list_ex (\<lambda>v. float_lt v PInf) (valid_losses (trace wl))"
    from loop have fe: "for_each (epoch_body E network device (length tag_encoder) epochs) (py_range epochs)
        \<lparr>losses = [], best_loss = PInf, best_parameters = None\<rparr> w0 = (Inr ls, wl)"
      by (simp add: epoch_loop_def)
    have "best_parameters s' = None"
      if "for_each (epoch_body E network device (length tag_encoder) epochs) es s w1 = (Inr s', w2)"
        and "best_parameters s = None"
        and "\<not> list_ex (\<lambda>v. float_lt v PInf) (valid_losses (trace w2))"
        and "best_loss s = PInf"
      for es s s' w1 w2
      using that
    proof (induction es arbitrary: s w1)
      case Nil
      then show ?case by simp
    next
      case (Cons e es)
      from Cons.prems(1) obtain s1 w3 where
        b: "epoch_body E network device (length tag_encoder) epochs e s w1 = (Inr s1, w3)"
        and f: "for_each (epoch_body E network device (length tag_encoder) epochs) es s1 w3 = (Inr s', w2)"
        by (auto split: prod.splits sum.splits)
      from epoch_body_Inr[OF b] obtain tl vl where
        t1: "trace w3 = trace w1 @ epoch_events network device (length tag_encoder) epochs e (tl, vl)"
        and b1: "best_loss s1 = (if float_lt vl (best_loss s) then vl else best_loss s)"
        and p1: "best_parameters s1 = (if float_lt vl (best_loss s) then Some (state_dict network)
          else best_parameters s)"
        by blast
      from for_each_epoch_body_Inr[OF f] obtain rs where
        "trace w2 = trace w3 @ concat (map2 (epoch_events network device (length tag_encoder) epochs) es rs)"
        by blast
      with t1 Cons.prems(3) have "\<not> float_lt vl PInf" by simp
      with b1 p1 Cons.prems have "best_parameters s1 = None" "best_loss s1 = PInf" by simp_all
      from Cons.IH[OF f this(1) Cons.prems(3) this(2)] show ?case .
    qed
    from this[OF fe _ n] bp show False by simp
  qed
  with load_state_dict_trace[OF ld] pos show ?thesis by simp
qed

text \<open>
  C1. The code does not do what the claim says. \<open>best_parameters = network.state_dict()\<close>
  binds a dictionary of tensors that share the storage of the live parameters, the next
  training pass writes into that storage, and \<open>load_state_dict\<close> then copies the storage
  onto itself. In the run below the validation losses are 1 and 2, so the least is that of
  the first epoch, at the end of which every parameter was 1; the network returned has
  every parameter at 2, the state of the last epoch.
\<close>

theorem best_snapshot_follows_live_parameters:
  "fst (toy_run [Fin 1, Fin 2] 5 2 None) = Inr (toy_network, [Fin 1, Fin 2]) \<and>
   valid_losses (trace (snd (toy_run [Fin 1, Fin 2] 5 2 None))) = [Fin 1, Fin 2] \<and>
   parameter_values toy_network (heap (snd (toy_loop [Fin 1, Fin 2] 1)))
     = [(''layer.weight'', 1), (''layer.bias'', 1)] \<and>
   parameter_values toy_network (heap (snd (toy_run [Fin 1, Fin 2] 5 2 None)))
     = [(''layer.weight'', 2), (''layer.bias'', 2)]"
proof -
  have "fst (toy_run [Fin 1, Fin 2] 5 2 None) = Inr (toy_network, [Fin 1, Fin 2])"
    by code_simp
  moreover have "valid_losses (trace (snd (toy_run [Fin 1, Fin 2] 5 2 None))) = [Fin 1, Fin 2]"
    by code_simp
  moreover have "parameter_values toy_network (heap (snd (toy_loop [Fin 1, Fin 2] 1)))
     = [(''layer.weight'', 1), (''layer.bias'', 1)]"
    by code_simp
  moreover have "parameter_values toy_network (heap (snd (toy_run [Fin 1, Fin 2] 5 2 None)))
     = [(''layer.weight'', 2), (''layer.bias'', 2)]"
    by code_simp
  ultimately show ?thesis by simp
qed

text \<open>
  C2. The code does not do what the claim says: nothing skips the restoration. With no
  epoch at all, and with two epochs whose validation losses are NaN and \<open>+\<infinity>\<close>,
  \<open>best_parameters\<close> is never bound and \<open>train_model\<close> raises \<open>UnboundLocalError\<close>
  instead of returning the network. In the second run the two training passes have
  moreover moved every parameter from 0 to 2.
\<close>

theorem no_improvement_raises:
  "fst (toy_run [] 5 0 None) = Inl UnboundLocalError \<and>
   fst (toy_run [NaN, PInf] 5 2 None) = Inl UnboundLocalError \<and>
   valid_losses (trace (snd (toy_run [NaN, PInf] 5 2 None))) = [NaN, PInf] \<and>
   parameter_values toy_network (heap (snd (toy_run [NaN, PInf] 5 2 None)))
     = [(''layer.weight'', 2), (''layer.bias'', 2)]"
proof -
  have "fst (toy_run [] 5 0 None) = Inl UnboundLocalError"
    by code_simp
  moreover have "fst (toy_run [NaN, PInf] 5 2 None) = Inl UnboundLocalError"
    by code_simp
  moreover have "valid_losses (trace (snd (toy_run [NaN, PInf] 5 2 None))) = [NaN, PInf]"
    by code_simp
  moreover have "parameter_values toy_network (heap (snd (toy_run [NaN, PInf] 5 2 None)))
     = [(''layer.weight'', 2), (''layer.bias'', 2)]"
    by code_simp
  ultimately show ?thesis by simp
qed

section \<open>The calls of a run\<close>

text \<open>
  What a run of \<open>train_model\<close> calls, whatever its outcome. Either a call of the set-up
  raises before the optimizer is built, and the run has made calls of the seeder and of the
  data loader factory only. Or both readers are built, the number of training steps is
  computed from the length of the first, and the run goes on with the optimizer, the
  schedule built with this number, and the iterations \<open>0, 1, 2, \<dots>\<close> of the epoch loop,
  each complete before the next, until a call raises or the loop has made \<open>epochs\<close>
  iterations; after these only an unbound \<open>best_parameters\<close> can still raise.
\<close>

lemma py_range_eq: "py_range n = map int [0..<nat n]"
  by (rule nth_equalityI) (simp_all add: length_py_range nth_py_range)

lemma map2_indexed:
  "length rs \<le> n \<Longrightarrow> map2 f (map int [0..<n]) rs = map (\<lambda>i. f (int i) (rs ! i)) [0..<length rs]"
  by (rule nth_equalityI) simp_all

lemma epoch_loop_trace:
  assumes "epoch_loop E net dev nt epochs w = (r, w')"
  shows "\<exists>rs rest.
     trace w' = trace w @ concat (map (\<lambda>i. epoch_events net dev nt epochs (int i) (rs ! i)) [0..<length rs]) @ rest \<and>
     (case r of
        Inr ls \<Rightarrow> length rs = nat epochs \<and> rest = []
      | Inl err \<Rightarrow> length rs < nat epochs \<and>
          (\<exists>tl. rest = aborted_epoch_events net dev nt epochs (int (length rs)) err tl))"
proof (cases r)
  case (Inl err)
  with assms have "for_each (epoch_body E net dev nt epochs) (py_range epochs)
      \<lparr>losses = [], best_loss = PInf, best_parameters = None\<rparr> w = (Inl err, w')"
    by (simp add: epoch_loop_def)
  from for_each_epoch_body_Inl[OF this] obtain rs tl where
    len: "length rs < nat epochs"
    and tr: "trace w' = trace w @ concat (map2 (epoch_events net dev nt epochs) (py_range epochs) rs)
        @ aborted_epoch_events net dev nt epochs (py_range epochs ! length rs) err tl"
    unfolding length_py_range by blast
  from len have "map2 (epoch_events net dev nt epochs) (py_range epochs) rs
      = map (\<lambda>i. epoch_events net dev nt epochs (int i) (rs ! i)) [0..<length rs]"
    unfolding py_range_eq by (intro map2_indexed) simp
  with tr len Inl show ?thesis
    by (intro exI[of _ rs] exI[of _ "aborted_epoch_events net dev nt epochs (int (length rs)) err tl"])
       (auto simp: nth_py_range)
next
  case (Inr ls)
  with assms have "for_each (epoch_body E net dev nt epochs) (py_range epochs)
      \<lparr>losses = [], best_loss = PInf, best_parameters = None\<rparr> w = (Inr ls, w')"
    by (simp add: epoch_loop_def)
  from for_each_epoch_body_Inr[OF this] obtain rs where
    len: "length rs = nat epochs"
    and tr: "trace w' = trace w @ concat (map2 (epoch_events net dev nt epochs) (py_range epochs) rs)"
    unfolding length_py_range by blast
  from len have "map2 (epoch_events net dev nt epochs) (py_range epochs) rs
      = map (\<lambda>i. epoch_events net dev nt epochs (int i) (rs ! i)) [0..<length rs]"
    unfolding py_range_eq by (intro map2_indexed) simp
  with tr len Inr show ?thesis
    by (intro exI[of _ rs] exI[of _ "[]"]) simp
qed

lemma load_state_dict_own_keys:
  "load_state_dict network (state_dict network) w = (r, w') \<Longrightarrow> r = Inr ()"
  by (simp add: load_state_dict_def state_dict_def)

lemma bnd_cases:
  assumes "bnd m f w = (r, w')"
  obtains (fail) e where "m w = (Inl e, w')" "r = Inl e"
        | (ok) x w1 where "m w = (Inr x, w1)" "f x w1 = (r, w')"
  using assms by (auto simp: bnd_def split: prod.splits sum.splits)

lemma setup_seeding_events: "list_all (\<lambda>ev. is_seeding ev \<or> is_dataloader ev) (take k (seeding_events seed))"
  by (auto simp: list_all_iff seeding_events_def dest!: in_set_takeD)

lemma setup_seeds: "list_all (\<lambda>ev. is_seeding ev \<or> is_dataloader ev) (seeds fixed_seed)"
  by (cases fixed_seed) (simp_all add: seeds_def seeding_events_def)

lemma seeding_Inl:
  assumes "(case fixed_seed of None \<Rightarrow> ret () | Some seed \<Rightarrow> enforce_reproducibility E seed) w = (Inl e, w')"
  shows "\<exists>pre. trace w' = trace w @ pre \<and> list_all (\<lambda>ev. is_seeding ev \<or> is_dataloader ev) pre"
proof (cases fixed_seed)
  case None
  with assms show ?thesis by (simp add: ret_def)
next
  case (Some seed)
  with assms have "enforce_reproducibility E seed w = (Inl e, w')" by simp
  from enforce_reproducibility_trace[OF this] obtain k where
    "trace w' = trace w @ take k (seeding_events seed)" by blast
  with setup_seeding_events[of k seed] show ?thesis by blast
qed

lemma train_model_outcome:
  assumes "train_model E network tag_encoder dataset_training dataset_validation bert_model_name max_len
     train_batch_size validation_batch_size epochs warmup_steps custom_weight_decay learning_rate
     device fixed_seed w = (r, w')"
  shows "(\<exists>e pre. r = Inl e \<and> trace w' = trace w @ pre \<and>
            list_all (\<lambda>ev. is_seeding ev \<or> is_dataloader ev) pre)
    \<or> (\<exists>len lv steps opt rs rest.
         num_train_steps len train_batch_size epochs = Inr steps \<and>
         trace w' = trace w @ seeds fixed_seed @
            [Create_dataloader (dataset_training ''sentences'') (dataset_training ''tags'')
               bert_model_name max_len train_batch_size tag_encoder (Inr len),
             Create_dataloader (dataset_validation ''sentences'') (dataset_validation ''tags'')
               bert_model_name max_len validation_batch_size tag_encoder (Inr lv)]
            @ opt
            @ concat (map (\<lambda>i. epoch_events network device (length tag_encoder) epochs (int i) (rs ! i))
                        [0..<length rs])
            @ rest \<and>
         ((\<exists>e. r = Inl e) \<and>
            opt = [AdamW (optimizer_parameters network custom_weight_decay) learning_rate] \<and>
            rs = [] \<and> rest = []
          \<or> opt = [AdamW (optimizer_parameters network custom_weight_decay) learning_rate,
                    Get_linear_schedule_with_warmup warmup_steps steps] \<and>
            (case r of
               Inr res \<Rightarrow> length rs = nat epochs \<and> rest = []
             | Inl err \<Rightarrow>
                 rest = [] \<and> (rs = [] \<or> length rs = nat epochs \<and> err = UnboundLocalError)
                 \<or> length rs < nat epochs \<and>
                    (\<exists>tl. rest = aborted_epoch_events network device (length tag_encoder) epochs
                                   (int (length rs)) err tl))))"
    (is "?early \<or> ?late")
  using assms[unfolded train_model_def Let_def]
proof (cases rule: bnd_cases)
  case (fail e)
  from seeding_Inl[OF fail(1)] fail(2) have ?early by blast
  then show ?thesis ..
next
  case (ok u w1)
  from seeding_Inr[OF ok(1)]
  have w1: "w1 = w\<lparr>trace := trace w @ seeds fixed_seed\<rparr>" .
  let ?cd1 = "Create_dataloader (dataset_training ''sentences'') (dataset_training ''tags'')
               bert_model_name max_len train_batch_size tag_encoder"
  let ?cd2 = "Create_dataloader (dataset_validation ''sentences'') (dataset_validation ''tags'')
               bert_model_name max_len validation_batch_size tag_encoder"
  let ?adamw = "AdamW (optimizer_parameters network custom_weight_decay) learning_rate"
  from ok(2) show ?thesis
  proof (cases rule: bnd_cases)
    case (fail e)
    then have "trace w' = trace w @ (seeds fixed_seed @ [?cd1 (Inl e)])"
      by (simp add: call_create_dataloader_eq w1)
    moreover have "list_all (\<lambda>ev. is_seeding ev \<or> is_dataloader ev) (seeds fixed_seed @ [?cd1 (Inl e)])"
      by (simp add: setup_seeds)
    ultimately have ?early using fail(2) by blast
    then show ?thesis ..
  next
    case (ok len w2)
    then have w2: "w2 = w\<lparr>trace := trace w @ seeds fixed_seed @ [?cd1 (Inr len)]\<rparr>"
      by (simp add: call_create_dataloader_eq w1)
    from ok(2) show ?thesis
    proof (cases rule: bnd_cases)
      case (fail e)
      then have "trace w' = trace w @ (seeds fixed_seed @ [?cd1 (Inr len), ?cd2 (Inl e)])"
        by (simp add: call_create_dataloader_eq w2)
      moreover have "list_all (\<lambda>ev. is_seeding ev \<or> is_dataloader ev)
          (seeds fixed_seed @ [?cd1 (Inr len), ?cd2 (Inl e)])"
        by (simp add: setup_seeds)
      ultimately have ?early using fail(2) by blast
      then show ?thesis ..
    next
      case (ok lv w3)
      then have w3: "w3 = w\<lparr>trace := trace w @ seeds fixed_seed @ [?cd1 (Inr len), ?cd2 (Inr lv)]\<rparr>"
        by (simp add: call_create_dataloader_eq w2)
      from ok(2) show ?thesis
      proof (cases rule: bnd_cases)
        case (fail e)
        then have "trace w' = trace w @ (seeds fixed_seed @ [?cd1 (Inr len), ?cd2 (Inr lv)])"
          by (auto simp: lift_def w3)
        moreover have "list_all (\<lambda>ev. is_seeding ev \<or> is_dataloader ev)
            (seeds fixed_seed @ [?cd1 (Inr len), ?cd2 (Inr lv)])"
          by (simp add: setup_seeds)
        ultimately have ?early using fail(2) by blast
        then show ?thesis ..
      next
        case (ok steps w4)
        then have w4: "w4 = w3" and n: "num_train_steps len train_batch_size epochs = Inr steps"
          by (simp_all add: lift_def)
        from ok(2) have ?late
        proof (cases rule: bnd_cases)
          case (fail e)
          then have "trace w' = trace w @ seeds fixed_seed @ [?cd1 (Inr len), ?cd2 (Inr lv)]
              @ [?adamw] @ concat (map (\<lambda>i. epoch_events network device (length tag_encoder) epochs (int i) ([] ! i))
                        [0..<length []]) @ []"
            by (simp add: library_eq w4 w3)
          with n fail(2) show ?thesis
            by (intro exI[of _ len] exI[of _ lv] exI[of _ steps] exI[of _ "[?adamw]"]
                  exI[of _ "[]"]) simp
        next
          case (ok u5 w5)
          then have w5: "w5 = w\<lparr>trace := trace w @ seeds fixed_seed @ [?cd1 (Inr len), ?cd2 (Inr lv), ?adamw]\<rparr>"
            by (simp add: library_eq w4 w3)
          let ?opt = "[?adamw, Get_linear_schedule_with_warmup warmup_steps steps]"
          have shape: ?thesis
            if "trace w' = trace w @ seeds fixed_seed @ [?cd1 (Inr len), ?cd2 (Inr lv)] @ ?opt
                  @ concat (map (\<lambda>i. epoch_events network device (length tag_encoder) epochs (int i) (rs ! i))
                        [0..<length rs]) @ rest"
              and "case r of
               Inr res \<Rightarrow> length rs = nat epochs \<and> rest = []
             | Inl err \<Rightarrow>
                 rest = [] \<and> (rs = [] \<or> length rs = nat epochs \<and> err = UnboundLocalError)
                 \<or> length rs < nat epochs \<and>
                    (\<exists>tl. rest = aborted_epoch_events network device (length tag_encoder) epochs
                                   (int (length rs)) err tl)"
            for rs rest
            using that n
            by (intro exI[of _ len] exI[of _ lv] exI[of _ steps] exI[of _ ?opt]
                  exI[of _ rs] exI[of _ rest]) simp
          from ok(2) show ?thesis
          proof (cases rule: bnd_cases)
            case (fail e)
            then have "trace w' = trace w @ seeds fixed_seed @ [?cd1 (Inr len), ?cd2 (Inr lv)] @ ?opt
                  @ concat (map (\<lambda>i. epoch_events network device (length tag_encoder) epochs (int i) ([] ! i))
                        [0..<length []]) @ []"
              by (simp add: library_eq w5)
            then show ?thesis using fail(2) by (intro shape[of "[]" "[]"]) simp_all
          next
            case (ok u6 w6)
            then have w6: "trace w6 = trace w @ seeds fixed_seed @ [?cd1 (Inr len), ?cd2 (Inr lv)] @ ?opt"
              by (simp add: library_eq w5)
            from ok(2) show ?thesis
            proof (cases rule: bnd_cases)
              case (fail e)
              from epoch_loop_trace[OF fail(1)] obtain rs rest where
                "trace w' = trace w6 @ concat (map (\<lambda>i. epoch_events network device (length tag_encoder)
                    epochs (int i) (rs ! i)) [0..<length rs]) @ rest"
                "length rs < nat epochs"
                "\<exists>tl. rest = aborted_epoch_events network device (length tag_encoder) epochs
                                   (int (length rs)) e tl"
                by auto
              with w6 fail(2) show ?thesis
                by (intro shape[of rs rest]) simp_all
            next
              case (ok ls wl)
              from epoch_loop_trace[OF ok(1)] obtain rs where
                tl: "trace wl = trace w6 @ concat (map (\<lambda>i. epoch_events network device (length tag_encoder)
                    epochs (int i) (rs ! i)) [0..<length rs])"
                and len: "length rs = nat epochs"
                by auto
              from epoch_loop_best_parameters[OF ok(1)]
              have bp: "best_parameters ls = None \<or> best_parameters ls = Some (state_dict network)" .
              from ok(2) have "trace w' = trace wl
                  \<and> (case r of Inr res \<Rightarrow> True | Inl err \<Rightarrow> err = UnboundLocalError)"
              proof (cases rule: bnd_cases)
                case (fail e)
                with bp show ?thesis
                  by (auto simp: throw_def dest: load_state_dict_own_keys load_state_dict_trace)
              next
                case (ok u7 w7)
                with bp have "trace w7 = trace wl"
                  by (auto simp: throw_def dest: load_state_dict_trace)
                with ok(2) show ?thesis by (auto simp: ret_def)
              qed
              with tl len w6 show ?thesis
                by (intro shape[of rs "[]"]) (auto split: sum.splits)
            qed
          qed
        qed
        then show ?thesis ..
      qed
    qed
  qed
qed


section \<open>The epoch loop runs \<open>epochs\<close> times\<close>



section \<open>Weight decay groups\<close>

lemma any_no_decay_iff:
  "any_no_decay n \<longleftrightarrow>
     sublist ''bias'' n \<or> sublist ''LayerNorm.bias'' n \<or> sublist ''LayerNorm.weight'' n"
  by (simp add: any_no_decay_def no_decay_def)

lemma float_literal_0: "float_literal 0 = Fin 0"
  by (simp add: float_literal_def round_to_double_def)

lemma mset_partition_params:
  "mset (map snd (filter (\<lambda>(n, p). \<not> P n) xs)) + mset (map snd (filter (\<lambda>(n, p). P n) xs))
     = mset (map snd xs)"
  by (induction xs) auto

lemma optimizer_parameters_groups:
  "if custom_weight_decay
   then \<exists>decayed undecayed.
      param_groups (optimizer_parameters network custom_weight_decay)
        = [(decayed, Some (float_literal (1 / 1000))), (undecayed, Some (Fin 0))] \<and>
      mset decayed + mset undecayed = mset (parameters network) \<and>
      (\<forall>(n, p) \<in> set (named_parameters network).
         if sublist ''bias'' n \<or> sublist ''LayerNorm.bias'' n \<or> sublist ''LayerNorm.weight'' n
         then p \<in> set undecayed else p \<in> set decayed)
   else param_groups (optimizer_parameters network custom_weight_decay) = [(parameters network, None)]"
proof (cases custom_weight_decay)
  case False
  then show ?thesis by (simp add: optimizer_parameters_def)
next
  case True
  let ?d = "map snd (filter (\<lambda>(n, p). \<not> any_no_decay n) (named_parameters network))"
  let ?u = "map snd (filter (\<lambda>(n, p). any_no_decay n) (named_parameters network))"
  have g: "param_groups (optimizer_parameters network True)
        = [(?d, Some (float_literal (1 / 1000))), (?u, Some (Fin 0))]"
    by (simp add: optimizer_parameters_def float_literal_0 Let_def)
  have m: "mset ?d + mset ?u = mset (parameters network)"
    unfolding parameters_def by (rule mset_partition_params)
  have e: "\<forall>(n, p) \<in> set (named_parameters network).
         if sublist ''bias'' n \<or> sublist ''LayerNorm.bias'' n \<or> sublist ''LayerNorm.weight'' n
         then p \<in> set ?u else p \<in> set ?d"
    by (force simp: any_no_decay_iff)
  from g m e True show ?thesis by auto
qed

lemma setup_no_adamw: "list_all (\<lambda>ev. is_seeding ev \<or> is_dataloader ev) pre \<Longrightarrow> filter is_adamw pre = []"
proof -
  have "\<not> is_adamw ev" if "is_seeding ev \<or> is_dataloader ev" for ev
    using that by (cases ev) simp_all
  then show "list_all (\<lambda>ev. is_seeding ev \<or> is_dataloader ev) pre \<Longrightarrow> filter is_adamw pre = []"
    by (auto simp: list_all_iff filter_empty_conv)
qed

lemma epoch_events_no_adamw:
  "filter is_adamw (concat (map (\<lambda>i. epoch_events net dev nt epochs (int i) (rs ! i)) xs)) = []"
  by (induction xs) (simp_all add: epoch_events_def)

lemma aborted_epoch_events_no_adamw:
  "filter is_adamw (aborted_epoch_events net dev nt epochs k err t) = []"
  by (cases t) simp_all

text \<open>
  C6. In every run of \<open>train_model\<close> the optimizer is built at most once, and exactly once
  in a run that returns, with the given learning rate and these parameters. With
  \<open>custom_weight_decay\<close>: two groups, the first with the weight decay 0.001, the second
  with 0.0; every parameter is in one of them, as many times as the network lists it; a
  parameter whose name contains \<open>bias\<close>, \<open>LayerNorm.bias\<close> or \<open>LayerNorm.weight\<close> is in
  the group without decay, and every other parameter in the group with decay 0.001.
  Without \<open>custom_weight_decay\<close>: the plain sequence of all parameters, that is one group
  for which \<open>train.py\<close> gives no decay, so that the default of the library applies.
\<close>

theorem optimizer_gets_weight_decay_groups:
  assumes "train_model E network tag_encoder dataset_training dataset_validation bert_model_name max_len
     train_batch_size validation_batch_size epochs warmup_steps custom_weight_decay learning_rate
     device fixed_seed w = (r, w')"
  shows "\<exists>new. trace w' = trace w @ new \<and>
     ((\<exists>e. r = Inl e) \<and> filter is_adamw new = []
      \<or> (\<exists>params. filter is_adamw new = [AdamW params learning_rate] \<and>
           (if custom_weight_decay
            then \<exists>decayed undecayed.
               param_groups params
                 = [(decayed, Some (float_literal (1 / 1000))), (undecayed, Some (Fin 0))] \<and>
               mset decayed + mset undecayed = mset (parameters network) \<and>
               (\<forall>(n, p) \<in> set (named_parameters network).
                  if sublist ''bias'' n \<or> sublist ''LayerNorm.bias'' n \<or> sublist ''LayerNorm.weight'' n
                  then p \<in> set undecayed else p \<in> set decayed)
            else param_groups params = [(parameters network, None)])))"
  using train_model_outcome[OF assms]
proof (elim disjE exE conjE)
  fix e pre
  assume "r = Inl e" "trace w' = trace w @ pre" "list_all (\<lambda>ev. is_seeding ev \<or> is_dataloader ev) pre"
  then show ?thesis
    by (intro exI[of _ pre]) (simp add: setup_no_adamw)
next
  fix len lv steps opt rs rest e
  assume t: "trace w' = trace w @ seeds fixed_seed @
            [Create_dataloader (dataset_training ''sentences'') (dataset_training ''tags'')
               bert_model_name max_len train_batch_size tag_encoder (Inr len),
             Create_dataloader (dataset_validation ''sentences'') (dataset_validation ''tags'')
               bert_model_name max_len validation_batch_size tag_encoder (Inr lv)]
            @ opt
            @ concat (map (\<lambda>i. epoch_events network device (length tag_encoder) epochs (int i) (rs ! i))
                        [0..<length rs])
            @ rest"
    and o: "opt = [AdamW (optimizer_parameters network custom_weight_decay) learning_rate]"
    and r: "rs = []" "rest = []"
  have "filter is_adamw (seeds fixed_seed @
            [Create_dataloader (dataset_training ''sentences'') (dataset_training ''tags'')
               bert_model_name max_len train_batch_size tag_encoder (Inr len),
             Create_dataloader (dataset_validation ''sentences'') (dataset_validation ''tags'')
               bert_model_name max_len validation_batch_size tag_encoder (Inr lv)]
            @ opt
            @ concat (map (\<lambda>i. epoch_events network device (length tag_encoder) epochs (int i) (rs ! i))
                        [0..<length rs])
            @ rest)
      = [AdamW (optimizer_parameters network custom_weight_decay) learning_rate]"
    using o r by (simp add: setup_no_adamw[OF setup_seeds])
  with t optimizer_parameters_groups[of custom_weight_decay network] show ?thesis
    by (intro exI[of _ "seeds fixed_seed @
            [Create_dataloader (dataset_training ''sentences'') (dataset_training ''tags'')
               bert_model_name max_len train_batch_size tag_encoder (Inr len),
             Create_dataloader (dataset_validation ''sentences'') (dataset_validation ''tags'')
               bert_model_name max_len validation_batch_size tag_encoder (Inr lv)]
            @ opt
            @ concat (map (\<lambda>i. epoch_events network device (length tag_encoder) epochs (int i) (rs ! i))
                        [0..<length rs])
            @ rest"] conjI disjI2
          exI[of _ "optimizer_parameters network custom_weight_decay"]) simp_all
next
  fix len lv steps opt rs rest
  assume t: "trace w' = trace w @ seeds fixed_seed @
            [Create_dataloader (dataset_training ''sentences'') (dataset_training ''tags'')
               bert_model_name max_len train_batch_size tag_encoder (Inr len),
             Create_dataloader (dataset_validation ''sentences'') (dataset_validation ''tags'')
               bert_model_name max_len validation_batch_size tag_encoder (Inr lv)]
            @ opt
            @ concat (map (\<lambda>i. epoch_events network device (length tag_encoder) epochs (int i) (rs ! i))
                        [0..<length rs])
            @ rest"
    and o: "opt = [AdamW (optimizer_parameters network custom_weight_decay) learning_rate,
                    Get_linear_schedule_with_warmup warmup_steps steps]"
    and c: "case r of
               Inr res \<Rightarrow> length rs = nat epochs \<and> rest = []
             | Inl err \<Rightarrow>
                 rest = [] \<and> (rs = [] \<or> length rs = nat epochs \<and> err = UnboundLocalError)
                 \<or> length rs < nat epochs \<and>
                    (\<exists>tl. rest = aborted_epoch_events network device (length tag_encoder) epochs
                                   (int (length rs)) err tl)"
  from c have "filter is_adamw rest = []"
    by (cases r) (auto simp: aborted_epoch_events_no_adamw)
  then have "filter is_adamw (seeds fixed_seed @
            [Create_dataloader (dataset_training ''sentences'') (dataset_training ''tags'')
               bert_model_name max_len train_batch_size tag_encoder (Inr len),
             Create_dataloader (dataset_validation ''sentences'') (dataset_validation ''tags'')
               bert_model_name max_len validation_batch_size tag_encoder (Inr lv)]
            @ opt
            @ concat (map (\<lambda>i. epoch_events network device (length tag_encoder) epochs (int i) (rs ! i))
                        [0..<length rs])
            @ rest)
      = [AdamW (optimizer_parameters network custom_weight_decay) learning_rate]"
    using o by (simp add: setup_no_adamw[OF setup_seeds] epoch_events_no_adamw)
  with t optimizer_parameters_groups[of custom_weight_decay network] show ?thesis
    by (intro exI[of _ "seeds fixed_seed @
            [Create_dataloader (dataset_training ''sentences'') (dataset_training ''tags'')
               bert_model_name max_len train_batch_size tag_encoder (Inr len),
             Create_dataloader (dataset_validation ''sentences'') (dataset_validation ''tags'')
               bert_model_name max_len validation_batch_size tag_encoder (Inr lv)]
            @ opt
            @ concat (map (\<lambda>i. epoch_events network device (length tag_encoder) epochs (int i) (rs ! i))
                        [0..<length rs])
            @ rest"] conjI disjI2
          exI[of _ "optimizer_parameters network custom_weight_decay"]) simp_all
qed

theorem optimizer_gets_weight_decay_groups_witness:
  "fst toy_run_decay = Inr (toy_network, [Fin 1]) \<and>
   filter is_adamw (trace (snd toy_run_decay))
     = [AdamW (Param_groups [([0], float_literal (1 / 1000)), ([1], Fin 0)]) (float_literal (5 / 100000))] \<and>
   float_literal (1 / 1000) = Fin (1152921504606847 / 1152921504606846976) \<and>
   (\<exists>decayed undecayed.
      param_groups (Param_groups [([0], float_literal (1 / 1000)), ([1], Fin 0)])
        = [(decayed, Some (float_literal (1 / 1000))), (undecayed, Some (Fin 0))] \<and>
      mset decayed + mset undecayed = mset (parameters toy_network) \<and>
      0 \<in> set decayed \<and> 1 \<in> set undecayed)"
proof -
  have f: "fst toy_run_decay = Inr (toy_network, [Fin 1])"
    by code_simp
  have a: "filter is_adamw (trace (snd toy_run_decay))
     = [AdamW (Param_groups [([0], float_literal (1 / 1000)), ([1], Fin 0)]) (float_literal (5 / 100000))]"
    by code_simp
  have l: "float_literal (1 / 1000) = Fin (1152921504606847 / 1152921504606846976)"
    by code_simp
  have b: "sublist ''bias'' ''layer.bias''"
    by code_simp
  have n: "\<not> (sublist ''bias'' ''layer.weight'' \<or> sublist ''LayerNorm.bias'' ''layer.weight''
            \<or> sublist ''LayerNorm.weight'' ''layer.weight'')"
    by code_simp
  from f have "toy_run_decay = (Inr (toy_network, [Fin 1]), snd toy_run_decay)"
    by (metis prod.collapse)
  from optimizer_gets_weight_decay_groups[OF this[unfolded toy_run_decay_def], folded toy_run_decay_def] a
  obtain decayed undecayed where
    "param_groups (Param_groups [([0], float_literal (1 / 1000)), ([1], Fin 0)])
        = [(decayed, Some (float_literal (1 / 1000))), (undecayed, Some (Fin 0))]"
    "mset decayed + mset undecayed = mset (parameters toy_network)"
    "\<forall>(n, p) \<in> set (named_parameters toy_network).
                  if sublist ''bias'' n \<or> sublist ''LayerNorm.bias'' n \<or> sublist ''LayerNorm.weight'' n
                  then p \<in> set undecayed else p \<in> set decayed"
    by (auto simp: fresh_def)
  moreover from this(3) b n have "0 \<in> set decayed" "1 \<in> set undecayed"
    by (auto simp: toy_network_def named_parameters_def)
  ultimately show ?thesis using f a l by blast
qed

section \<open>The number of training steps\<close>

lemma round_half_even_of_int: "round_half_even (of_int j) = j"
  by (simp add: round_half_even_def)

lemma bitlen_1: "bitlen 1 = 1"
  by (simp add: bitlen_alt_def)

lemma floor_log2_of_int:
  assumes "0 < k"
  shows "floor_log2 (of_int k) = bitlen k - 1"
proof -
  from assms have b: "1 \<le> bitlen k"
    by (simp add: bitlen_alt_def)
  from bitlen_bounds[OF assms] have "(2::int) ^ nat (bitlen k - 1) \<le> k" by simp
  then have "(of_int ((2::int) ^ nat (bitlen k - 1)) :: rat) \<le> of_int k"
    by (simp only: of_int_le_iff)
  then have "pow2 (bitlen k - 1) \<le> of_int k"
    using b by (simp add: pow2_def)
  then show ?thesis
    by (simp add: floor_log2_def bitlen_1 Let_def)
qed

lemma round_to_double_of_int:
  assumes "\<bar>k\<bar> < 2 ^ 53"
  shows "round_to_double (of_int k) = of_int k"
proof (cases "k = 0")
  case True
  then show ?thesis by (simp add: round_to_double_def)
next
  case False
  then have pos: "0 < \<bar>k\<bar>" by simp
  define m where "m = nat (53 - bitlen \<bar>k\<bar>)"
  from pos have b1: "1 \<le> bitlen \<bar>k\<bar>" by (simp add: bitlen_alt_def)
  from assms have b2: "bitlen \<bar>k\<bar> \<le> 53" by (simp add: bitlen_le_iff_power)
  have fl: "floor_log2 \<bar>rat_of_int k\<bar> = bitlen \<bar>k\<bar> - 1"
    using floor_log2_of_int[OF pos] by simp
  from b1 b2 have e: "max (bitlen \<bar>k\<bar> - 53) (- 1074) = - int m"
    by (simp add: m_def)
  have p: "pow2 (- int m) = 1 / 2 ^ m"
    by (simp add: pow2_def)
  have "rat_of_int k * 2 ^ m = of_int (k * 2 ^ m)"
    by simp
  then have r: "round_half_even (rat_of_int k * 2 ^ m) = k * 2 ^ m"
    by (simp only: round_half_even_of_int)
  show ?thesis
    using False by (simp add: round_to_double_def fl e p r Let_def)
qed

lemma small_no_overflow:
  assumes "\<bar>x\<bar> < 2 ^ 53"
  shows "\<not> double_overflows x"
proof -
  have "(2::rat) ^ 53 \<le> 2 ^ 1024" by (rule power_increasing) simp_all
  with assms show ?thesis unfolding double_overflows_def by linarith
qed

lemma abs_of_int_less: "\<bar>k\<bar> < 2 ^ 53 \<Longrightarrow> \<bar>rat_of_int k\<bar> < 2 ^ 53"
proof -
  assume "\<bar>k\<bar> < 2 ^ 53"
  then have "rat_of_int \<bar>k\<bar> < of_int (2 ^ 53)" by (simp only: of_int_less_iff)
  then show ?thesis by simp
qed

lemma float_of_int_exact: "\<bar>n\<bar> < 2 ^ 53 \<Longrightarrow> float_of_int n = Inr (of_int n)"
  by (simp add: float_of_int_def round_to_double_of_int small_no_overflow abs_of_int_less Let_def)

lemma pow2_powi: "pow2 e = 2 powi e"
  by (simp add: pow2_def power_int_def power_one_over inverse_eq_divide)

lemma pow2_pos: "0 < pow2 e"
  by (simp add: pow2_powi)

lemma pow2_add: "pow2 (a + b) = pow2 a * pow2 b"
  by (simp add: pow2_powi power_int_add)

lemma pow2_diff: "pow2 (a - b) = pow2 a / pow2 b"
  by (simp add: pow2_powi power_int_diff)

lemma pow2_mono: "a \<le> b \<Longrightarrow> pow2 a \<le> pow2 b"
  by (simp add: pow2_powi power_int_increasing)

lemma pow2_nat: "pow2 (int n) = 2 ^ n"
  by (simp add: pow2_def)

lemma pow2_neg_nat: "pow2 (- int n) = 1 / 2 ^ n"
  by (simp add: pow2_def)

lemma round_half_even_le:
  assumes "x \<le> of_int z"
  shows "round_half_even x \<le> z"
proof (cases "x = of_int z")
  case True
  then show ?thesis by (simp add: round_half_even_def)
next
  case False
  with assms have "x < of_int z" by simp
  then have "\<lfloor>x\<rfloor> < z" by (simp add: floor_less_iff)
  then show ?thesis
    by (simp add: round_half_even_def Let_def)
qed

lemma round_half_even_ge:
  assumes "of_int z \<le> x"
  shows "z \<le> round_half_even x"
proof -
  from assms have "z \<le> \<lfloor>x\<rfloor>" by (simp add: le_floor_iff)
  then show ?thesis
    by (simp add: round_half_even_def Let_def)
qed

lemma floor_log2_le:
  assumes "0 < q"
  shows "pow2 (floor_log2 q) \<le> q"
proof -
  obtain a b where ab: "quotient_of q = (a, b)" by (cases "quotient_of q")
  then have b: "0 < b" by (rule quotient_of_denom_pos)
  from ab have q: "q = of_int a / of_int b" by (rule quotient_of_div)
  with assms b have a: "0 < a"
    by (simp add: zero_less_divide_iff)
  from a have la: "1 \<le> bitlen a" by (simp add: bitlen_alt_def)
  from b have lb: "1 \<le> bitlen b" by (simp add: bitlen_alt_def)
  from bitlen_bounds[OF a] have "(2::int) ^ nat (bitlen a - 1) \<le> a" by simp
  then have "rat_of_int (2 ^ nat (bitlen a - 1)) \<le> of_int a" by (simp only: of_int_le_iff)
  then have lo: "pow2 (bitlen a - 1) \<le> of_int a"
    using la by (simp add: pow2_def)
  from bitlen_bounds[OF b] have "b \<le> (2::int) ^ nat (bitlen b)" by simp
  then have "rat_of_int b \<le> of_int (2 ^ nat (bitlen b))" by (simp only: of_int_le_iff)
  then have hi: "of_int b \<le> pow2 (bitlen b)"
    using lb by (simp add: pow2_def)
  have "pow2 (bitlen a - bitlen b - 1) = pow2 (bitlen a - 1) / pow2 (bitlen b)"
    using pow2_diff[of "bitlen a - 1" "bitlen b"] by (simp add: algebra_simps)
  also have "\<dots> \<le> of_int a / of_int b"
    using lo hi b pow2_pos[of "bitlen a - 1"] by (intro frac_le) simp_all
  finally have "pow2 (bitlen a - bitlen b - 1) \<le> q" by (simp add: q)
  then show ?thesis
    by (simp add: floor_log2_def ab Let_def)
qed

lemma round_to_double_pos:
  assumes "0 < q"
  shows "round_to_double q
    = of_int (round_half_even (q / pow2 (max (floor_log2 q - 52) (- 1074))))
        * pow2 (max (floor_log2 q - 52) (- 1074))"
  using assms by (simp add: round_to_double_def Let_def)

lemma round_to_double_le_grid:
  assumes "0 < q" and "q \<le> of_int J / 2 ^ j" and "J < 2 ^ 53" and "j \<le> 1074"
  shows "round_to_double q \<le> of_int J / 2 ^ j"
proof -
  define e where "e = max (floor_log2 q - 52) (- 1074)"
  have e_le: "e \<le> - int j"
  proof (rule ccontr)
    assume "\<not> e \<le> - int j"
    with assms(4) have "53 - int j \<le> floor_log2 q"
      by (simp add: e_def max_def split: if_splits)
    then have "pow2 (53 - int j) \<le> pow2 (floor_log2 q)" by (rule pow2_mono)
    also have "\<dots> \<le> q" by (rule floor_log2_le[OF assms(1)])
    finally have "pow2 53 / pow2 (int j) \<le> of_int J / 2 ^ j"
      using assms(2) by (simp add: pow2_diff)
    then have "(2::rat) ^ 53 \<le> of_int J"
      using pow2_nat[of 53] by (simp add: pow2_nat divide_le_cancel)
    moreover from assms(3) have "rat_of_int J < of_int (2 ^ 53)" by (simp only: of_int_less_iff)
    ultimately show False by simp
  qed
  define z where "z = J * 2 ^ nat (- int j - e)"
  have "pow2 (- int j - e) = 2 ^ nat (- int j - e)"
    using e_le by (simp add: pow2_def)
  then have "of_int z * pow2 e = of_int J * (pow2 (- int j - e) * pow2 e)"
    by (simp add: z_def)
  also have "pow2 (- int j - e) * pow2 e = pow2 (- int j)"
    using pow2_add[of "- int j - e" e] by simp
  finally have g: "of_int J / 2 ^ j = of_int z * pow2 e"
    by (simp add: pow2_neg_nat)
  with assms(2) have "q / pow2 e \<le> of_int z"
    by (simp add: pos_divide_le_eq pow2_pos)
  then have "round_half_even (q / pow2 e) \<le> z" by (rule round_half_even_le)
  then have "rat_of_int (round_half_even (q / pow2 e)) \<le> of_int z" by (simp only: of_int_le_iff)
  then have "of_int (round_half_even (q / pow2 e)) * pow2 e \<le> of_int z * pow2 e"
    by (intro mult_right_mono) (simp_all add: less_imp_le[OF pow2_pos])
  then show ?thesis
    unfolding round_to_double_pos[OF assms(1)] g e_def .
qed

lemma round_to_double_ge_int:
  assumes "0 < q" and "of_int K \<le> q" and "K < 2 ^ 53"
  shows "of_int K \<le> round_to_double q"
proof -
  define e where "e = max (floor_log2 q - 52) (- 1074)"
  have fl: "round_to_double q = of_int (round_half_even (q / pow2 e)) * pow2 e"
    unfolding e_def by (rule round_to_double_pos[OF assms(1)])
  show ?thesis
  proof (cases "e \<le> 0")
    case True
    define z where "z = K * 2 ^ nat (- e)"
    have "pow2 (- e) = 2 ^ nat (- e)"
      using True by (simp add: pow2_def)
    then have "of_int z * pow2 e = of_int K * (pow2 (- e) * pow2 e)"
      by (simp add: z_def)
    also have "pow2 (- e) * pow2 e = 1"
      using pow2_add[of "- e" e] by (simp add: pow2_def)
    finally have g: "rat_of_int K = of_int z * pow2 e" by simp
    with assms(2) have "of_int z \<le> q / pow2 e"
      by (simp add: pos_le_divide_eq pow2_pos)
    then have "z \<le> round_half_even (q / pow2 e)" by (rule round_half_even_ge)
    then have "rat_of_int z \<le> of_int (round_half_even (q / pow2 e))" by (simp only: of_int_le_iff)
    then have "of_int z * pow2 e \<le> of_int (round_half_even (q / pow2 e)) * pow2 e"
      by (intro mult_right_mono) (simp_all add: less_imp_le[OF pow2_pos])
    then show ?thesis unfolding fl g .
  next
    case False
    then have e: "e = floor_log2 q - 52" and e1: "1 \<le> e"
      by (simp_all add: e_def max_def split: if_splits)
    have "pow2 (e + 52) \<le> q"
      using floor_log2_le[OF assms(1)] by (simp add: e)
    then have "of_int (2 ^ 52) * pow2 e \<le> q"
      using pow2_add[of e 52] pow2_nat[of 52] by (simp add: mult.commute)
    then have "of_int (2 ^ 52) \<le> q / pow2 e"
      by (simp add: pos_le_divide_eq pow2_pos)
    then have "2 ^ 52 \<le> round_half_even (q / pow2 e)" by (rule round_half_even_ge)
    then have "rat_of_int (2 ^ 52) \<le> of_int (round_half_even (q / pow2 e))"
      by (simp only: of_int_le_iff)
    then have "of_int (2 ^ 52) * pow2 e \<le> of_int (round_half_even (q / pow2 e)) * pow2 e"
      by (intro mult_right_mono) (simp_all add: less_imp_le[OF pow2_pos])
    moreover have "pow2 1 \<le> pow2 e" using e1 by (rule pow2_mono)
    then have "of_int (2 ^ 52) * pow2 1 \<le> rat_of_int (2 ^ 52) * pow2 e"
      by (intro mult_left_mono) simp_all
    moreover have "rat_of_int K < of_int (2 ^ 53)" using assms(3) by (simp only: of_int_less_iff)
    moreover have "rat_of_int (2 ^ 52) * pow2 1 = of_int (2 ^ 53)" by (simp add: pow2_def)
    ultimately show ?thesis unfolding fl by linarith
  qed
qed

lemma round_to_double_0: "round_to_double 0 = 0"
  by (simp add: round_to_double_def)

lemma ceil_div:
  fixes t b :: int
  assumes "0 < b"
  shows "t \<le> (t + b - 1) div b * b" and "(t + b - 1) div b * b < t + b"
proof -
  have eq: "(t + b - 1) div b * b + (t + b - 1) mod b = t + b - 1"
    by (simp add: div_mult_mod_eq)
  from assms have "0 \<le> (t + b - 1) mod b" "(t + b - 1) mod b < b"
    by simp_all
  with eq show "t \<le> (t + b - 1) div b * b" and "(t + b - 1) div b * b < t + b"
    by linarith+
qed

lemma num_train_steps_floor:
  fixes len_dr_train :: nat and train_batch_size epochs :: int
  assumes bs: "0 < train_batch_size" and ep: "0 \<le> epochs"
    and part: "int len_dr_train mod train_batch_size * epochs < train_batch_size"
    and small: "int len_dr_train + train_batch_size < 2 ^ 51"
    and small2: "(int len_dr_train + train_batch_size) * (epochs * epochs) < 2 ^ 51"
  shows "num_train_steps len_dr_train train_batch_size epochs
           = Inr (int len_dr_train div train_batch_size * epochs)"
proof -
  define n where "n = int len_dr_train"
  define b where "b = train_batch_size"
  define e where "e = epochs"
  define d where "d = n div b"
  define m where "m = n mod b"
  define A where "A = n + b"
  define K where "K = d * e"
  have b0: "0 < b" and e0: "0 \<le> e" and n0: "0 \<le> n"
    using bs ep by (simp_all add: b_def e_def n_def)
  have A51: "A < 2 ^ 51" and Aee: "A * (e * e) < 2 ^ 51"
    using small small2 by (simp_all add: A_def n_def b_def e_def)
  have me: "m * e < b" using part by (simp add: m_def n_def b_def e_def)
  have dm: "n = d * b + m" by (simp add: d_def m_def)
  have m0: "0 \<le> m" and mb: "m < b" using b0 by (simp_all add: m_def)
  have d0: "0 \<le> d" using b0 n0 by (simp add: d_def pos_imp_zdiv_nonneg_iff)
  have A1: "1 \<le> A" using b0 n0 by (simp add: A_def)
  have db: "(d + 1) * b \<le> A" using dm m0 by (simp add: A_def algebra_simps)
  have "(d + 1) * 1 \<le> (d + 1) * b" using d0 b0 by (intro mult_left_mono) simp_all
  with db have d1: "d + 1 \<le> A" by simp
  have ee0: "0 \<le> e * e" using e0 by simp
  have e_ee: "e \<le> e * e"
  proof (cases "e = 0")
    case False
    with e0 have "e * 1 \<le> e * e" by (intro mult_left_mono) simp_all
    then show ?thesis by simp
  qed simp
  have "1 * (e * e) \<le> A * (e * e)" using A1 ee0 by (intro mult_right_mono) simp_all
  with e_ee Aee have e53: "\<bar>e\<bar> < 2 ^ 53" using e0 by simp
  have Ae: "A * e \<le> A * (e * e)" using e_ee A1 by (intro mult_left_mono) simp_all
  have K0: "0 \<le> K" using d0 e0 by (simp add: K_def)
  have "d * e \<le> (d + 1) * e" using e0 by (intro mult_right_mono) simp_all
  also have "(d + 1) * e \<le> A * e" using d1 e0 by (intro mult_right_mono) simp_all
  finally have KA: "K \<le> A * (e * e)" using Ae by (simp add: K_def)
  with Aee have K53: "K < 2 ^ 53" by simp

  define q0 where "q0 = rat_of_int n / rat_of_int b"
  define q where "q = round_to_double q0"
  have rb: "0 < rat_of_int b" using b0 by simp
  have "rat_of_int (d * b) \<le> rat_of_int n" unfolding of_int_le_iff using dm m0 by simp
  then have q0_lo: "rat_of_int d \<le> q0"
    using rb by (simp add: q0_def pos_le_divide_eq)
  have "rat_of_int n \<le> rat_of_int ((d + 1) * b)" unfolding of_int_le_iff using dm mb by (simp add: algebra_simps)
  then have q0_hi: "q0 \<le> rat_of_int (d + 1) / 2 ^ 0"
    using rb by (simp add: q0_def pos_divide_le_eq)
  have q0_0: "0 \<le> q0" using n0 b0 by (simp add: q0_def)
  have q_lo: "rat_of_int d \<le> q" and q_hi: "q \<le> rat_of_int (d + 1)"
  proof -
    show "rat_of_int d \<le> q"
    proof (cases "q0 = 0")
      case True
      with q0_lo have "rat_of_int d \<le> 0" by simp
      with True show ?thesis by (simp add: q_def round_to_double_0)
    next
      case False
      with q0_0 have "0 < q0" by simp
      then show ?thesis unfolding q_def
        using q0_lo by (rule round_to_double_ge_int) (use d1 A51 in simp)
    qed
    show "q \<le> rat_of_int (d + 1)"
    proof (cases "q0 = 0")
      case True
      with d0 show ?thesis by (simp add: q_def round_to_double_0)
    next
      case False
      with q0_0 have "0 < q0" by simp
      from round_to_double_le_grid[OF this q0_hi] d1 A51 show ?thesis
        by (simp add: q_def)
    qed
  qed
  have q0': "0 \<le> q" using q_lo d0 by (meson of_int_0_le_iff order_trans)
  have "rat_of_int (d + 1) < of_int (2 ^ 53)" unfolding of_int_less_iff using d1 A51 by simp
  with q_hi q0' have qabs: "\<bar>q\<bar> < 2 ^ 53" by simp
  have tdiv: "int_truediv n b = Inr q"
    using b0 small_no_overflow[OF qabs] by (simp add: int_truediv_def q_def q0_def Let_def)
  have fe: "float_of_int e = Inr (of_int e)"
    using e53 by (rule float_of_int_exact)

  define x1 where "x1 = q * rat_of_int e"
  define p where "p = round_to_double x1"
  have re0: "0 \<le> rat_of_int e" using e0 by simp
  have x1_0: "0 \<le> x1" using q0' re0 by (simp add: x1_def)
  have "rat_of_int d * rat_of_int e \<le> q * rat_of_int e"
    using q_lo re0 by (rule mult_right_mono)
  then have x1_lo: "rat_of_int K \<le> x1" by (simp add: x1_def K_def)
  have p_lo: "rat_of_int K \<le> p"
  proof (cases "x1 = 0")
    case True
    with x1_lo show ?thesis by (simp add: p_def round_to_double_0)
  next
    case False
    with x1_0 have "0 < x1" by simp
    then show ?thesis unfolding p_def using x1_lo K53 by (rule round_to_double_ge_int)
  qed
  have p_hi: "p < rat_of_int K + 1"
  proof (cases "x1 = 0")
    case True
    then have "p = 0" by (simp add: p_def round_to_double_0)
    moreover have "0 \<le> rat_of_int K" using K0 by simp
    ultimately show ?thesis by simp
  next
    case False
    with x1_0 have x1_pos: "0 < x1" by simp
    then have "e \<noteq> 0" and "q \<noteq> 0" by (auto simp: x1_def)
    with e0 have e1: "1 \<le> e" by simp
    from \<open>q \<noteq> 0\<close> have q0_pos: "0 < q0"
      using q0_0 by (cases "q0 = 0") (simp_all add: q_def round_to_double_0)
    define x where "x = 2 * b * e"
    have x_pos: "0 < x" using b0 e1 by (simp add: x_def)
    define j where "j = nat (bitlen x)"
    define s where "s = (2::int) ^ j"
    have bl1: "1 \<le> bitlen x" using x_pos by (simp add: bitlen_alt_def)
    from bitlen_bounds[OF x_pos] have xl: "2 ^ nat (bitlen x - 1) \<le> x" and xu: "x < s"
      by (simp_all add: s_def j_def)
    have "j = Suc (nat (bitlen x - 1))" using bl1 by (simp add: j_def)
    then have "s = 2 * 2 ^ nat (bitlen x - 1)" by (simp add: s_def)
    with xl have s_le: "s \<le> 2 * x" by simp
    have s_pos: "0 < s" by (simp add: s_def)
    have be0: "0 \<le> b * e" using b0 e0 by simp
    have be_s: "b * e < s" using xu be0 by (simp add: x_def)
    have bee: "(d + 1) * b * e \<le> A * e" using db e0 by (intro mult_right_mono) simp_all
    have beee: "(d + 1) * b * e * e \<le> A * (e * e)"
    proof -
      have "(d + 1) * b * (e * e) \<le> A * (e * e)" using db ee0 by (intro mult_right_mono) simp_all
      then show ?thesis by (simp add: mult.assoc)
    qed
    define F where "F = (m * s + b - 1) div b"
    have F_lo: "m * s \<le> F * b" and F_hi: "F * b < m * s + b"
      unfolding F_def using ceil_div[OF b0, of "m * s"] by simp_all
    have F0: "0 \<le> F"
    proof (rule ccontr)
      assume "\<not> 0 \<le> F"
      then have "F \<le> - 1" by simp
      then have "F * b \<le> - 1 * b" using b0 by (intro mult_right_mono) simp_all
      moreover have "0 \<le> m * s" using m0 s_pos by simp
      ultimately show False using F_lo b0 by simp
    qed
    have "m * s \<le> (b - 1) * s" using mb s_pos by (intro mult_right_mono) simp_all
    with F_hi have "F * b < (s + 1) * b" using s_pos by (simp add: algebra_simps)
    then have "F < s + 1" using b0 by (simp add: mult_less_cancel_right_pos)
    then have F_s: "F \<le> s" by simp
    define J1 where "J1 = d * s + F"
    have J1_le: "J1 \<le> (d + 1) * s" using F_s by (simp add: J1_def algebra_simps)
    have J1_0: "0 \<le> J1" using d0 s_pos F0 by (simp add: J1_def)
    have ds2x: "(d + 1) * s \<le> (d + 1) * (2 * x)" using s_le d0 by (intro mult_left_mono) simp_all
    have "(d + 1) * (2 * x) = 4 * ((d + 1) * b * e)" by (simp add: x_def)
    with ds2x bee Ae have ds_le: "(d + 1) * s \<le> 4 * (A * (e * e))" by simp
    with J1_le Aee have J1_53: "J1 < 2 ^ 53" by simp
    have "s \<le> (d + 1) * s" using d0 s_pos by simp
    with ds_le Aee have \<open>s < 2 ^ 53\<close> by simp
    have "j < 53"
    proof (rule ccontr)
      assume "\<not> j < 53"
      then have "53 \<le> j" by simp
      then have "(2::int) ^ 53 \<le> 2 ^ j" by (intro power_increasing) simp_all
      with \<open>s < 2 ^ 53\<close> show False by (simp add: s_def)
    qed
    then have j1074: "j \<le> 1074" by simp
    have "n * s \<le> J1 * b" using F_lo by (simp add: dm J1_def algebra_simps)
    then have "rat_of_int (n * s) \<le> rat_of_int (J1 * b)" by (simp only: of_int_le_iff)
    then have "rat_of_int n * rat_of_int s \<le> rat_of_int J1 * rat_of_int b" by simp
    moreover have rs: "0 < rat_of_int s" using s_pos by simp
    ultimately have "q0 \<le> rat_of_int J1 / rat_of_int s"
      using rb by (simp add: q0_def field_simps)
    moreover have s2j: "rat_of_int s = 2 ^ j" by (simp add: s_def)
    ultimately have "q0 \<le> rat_of_int J1 / 2 ^ j" by simp
    from round_to_double_le_grid[OF q0_pos this J1_53 j1074]
    have q_grid: "q \<le> rat_of_int J1 / 2 ^ j" by (simp add: q_def)
    define J2 where "J2 = J1 * e"
    have "q * rat_of_int e \<le> rat_of_int J1 / 2 ^ j * rat_of_int e"
      using q_grid re0 by (rule mult_right_mono)
    then have x1_hi: "x1 \<le> rat_of_int J2 / 2 ^ j" by (simp add: x1_def J2_def)
    have "J1 * e \<le> (d + 1) * s * e" using J1_le e0 by (intro mult_right_mono) simp_all
    also have "\<dots> \<le> (d + 1) * (2 * x) * e" using ds2x e0 by (intro mult_right_mono) simp_all
    also have "\<dots> = 4 * ((d + 1) * b * e * e)" by (simp add: x_def)
    also have "\<dots> \<le> 4 * (A * (e * e))" using beee by simp
    finally have J2_53: "J2 < 2 ^ 53" using Aee by (simp add: J2_def)
    from round_to_double_le_grid[OF x1_pos x1_hi J2_53 j1074]
    have p_grid: "p \<le> rat_of_int J2 / 2 ^ j" by (simp add: p_def)
    have "m * e \<le> b - 1" using me by simp
    then have "m * e * s \<le> (b - 1) * s" using s_pos by (intro mult_right_mono) simp_all
    moreover have "F * b * e < (m * s + b) * e" using F_hi e1 by (intro mult_strict_right_mono) simp_all
    ultimately have "F * e * b < s * b" using be_s by (simp add: algebra_simps)
    then have Fe: "F * e < s" using b0 by (simp add: mult_less_cancel_right_pos)
    have "J2 = K * s + F * e" by (simp add: J2_def J1_def K_def algebra_simps)
    with Fe have "J2 < (K + 1) * s" by (simp add: algebra_simps)
    then have "rat_of_int J2 < rat_of_int ((K + 1) * s)" by (simp only: of_int_less_iff)
    then have "rat_of_int J2 / rat_of_int s < rat_of_int K + 1"
      using rs by (simp add: pos_divide_less_eq)
    with p_grid s2j show ?thesis by simp
  qed
  have p0: "0 \<le> p" using p_lo K0 by (meson of_int_0_le_iff order_trans)
  have "rat_of_int K + 1 \<le> of_int (2 ^ 53)"
    using K53 by (metis of_int_1 of_int_add of_int_le_iff zless_imp_add1_zle)
  with p_hi p0 have pabs: "\<bar>p\<bar> < 2 ^ 53" by simp
  have fm: "float_mul q (of_int e) = Fin p"
    using small_no_overflow[OF pabs] by (simp add: float_mul_def p_def x1_def Let_def)
  have "\<lfloor>p\<rfloor> = K" using p_lo p_hi by (simp add: floor_unique)
  with p0 have "int_of_float (Fin p) = Inr K" by simp
  with tdiv fe fm have "num_train_steps len_dr_train b e = Inr K"
    by (simp add: num_train_steps_def n_def)
  then show ?thesis by (simp add: b_def e_def K_def d_def n_def)
qed

lemma setup_no_schedule: "list_all (\<lambda>ev. is_seeding ev \<or> is_dataloader ev) pre \<Longrightarrow> filter is_schedule pre = []"
proof -
  have "\<not> is_schedule ev" if "is_seeding ev \<or> is_dataloader ev" for ev
    using that by (cases ev) simp_all
  then show "list_all (\<lambda>ev. is_seeding ev \<or> is_dataloader ev) pre \<Longrightarrow> filter is_schedule pre = []"
    by (auto simp: list_all_iff filter_empty_conv)
qed

lemma seeds_no_dataloader: "filter is_dataloader (seeds fixed_seed) = []"
  by (cases fixed_seed) (simp_all add: seeds_def seeding_events_def)

lemma epoch_events_no_schedule:
  "filter is_schedule (concat (map (\<lambda>i. epoch_events net dev nt epochs (int i) (rs ! i)) xs)) = []"
  by (induction xs) (simp_all add: epoch_events_def)

lemma epoch_events_no_dataloader:
  "filter is_dataloader (concat (map (\<lambda>i. epoch_events net dev nt epochs (int i) (rs ! i)) xs)) = []"
  by (induction xs) (simp_all add: epoch_events_def)

lemma aborted_epoch_events_no_schedule:
  "filter is_schedule (aborted_epoch_events net dev nt epochs k err t) = []"
  by (cases t) simp_all

lemma aborted_epoch_events_no_dataloader:
  "filter is_dataloader (aborted_epoch_events net dev nt epochs k err t) = []"
  by (cases t) simp_all

text \<open>
  C3, as amended. In every run of \<open>train_model\<close> the schedule is built at most once, and
  exactly once in a run that returns, with the number of steps \<open>int(len(dr_train) /
  train_batch_size * epochs)\<close>, where \<open>len(dr_train)\<close> is the length of the reader that the
  first call of the data loader factory returned: the quotient as a double, times
  \<open>epochs\<close> as a double, truncated. This number is \<open>floor(n / batch size) * epochs\<close>
  whenever the examples left over after the last full batch, times \<open>epochs\<close>, are fewer
  than a batch, \<open>(n mod batch size) * epochs < batch size\<close>: in particular when the batch
  size divides \<open>n\<close> (10 examples, batches of 5, 2 epochs: 4 steps), and for one epoch. The
  bounds \<open>n + batch size < 2^51\<close> and \<open>(n + batch size) * epochs^2 < 2^51\<close> keep the
  roundings of the two float operations away from the next integer; the batch size is
  positive and \<open>epochs\<close> is not negative.
\<close>

theorem schedule_gets_total_steps:
  assumes "train_model E network tag_encoder dataset_training dataset_validation bert_model_name max_len
     train_batch_size validation_batch_size epochs warmup_steps custom_weight_decay learning_rate
     device fixed_seed w = (r, w')"
  shows "\<exists>new. trace w' = trace w @ new \<and>
     ((\<exists>e. r = Inl e) \<and> filter is_schedule new = []
      \<or> (\<exists>len_dr_train len_dr_validate steps.
            filter is_dataloader new
              = [Create_dataloader (dataset_training ''sentences'') (dataset_training ''tags'')
                   bert_model_name max_len train_batch_size tag_encoder (Inr len_dr_train),
                 Create_dataloader (dataset_validation ''sentences'') (dataset_validation ''tags'')
                   bert_model_name max_len validation_batch_size tag_encoder (Inr len_dr_validate)] \<and>
            filter is_schedule new = [Get_linear_schedule_with_warmup warmup_steps steps] \<and>
            num_train_steps len_dr_train train_batch_size epochs = Inr steps \<and>
            (0 < train_batch_size \<and> 0 \<le> epochs \<and>
             int len_dr_train mod train_batch_size * epochs < train_batch_size \<and>
             int len_dr_train + train_batch_size < 2 ^ 51 \<and>
             (int len_dr_train + train_batch_size) * (epochs * epochs) < 2 ^ 51
             \<longrightarrow> steps = \<lfloor>rat_of_nat len_dr_train / rat_of_int train_batch_size\<rfloor> * epochs)))"
  using train_model_outcome[OF assms]
proof (elim disjE exE conjE)
  fix e pre
  assume "r = Inl e" "trace w' = trace w @ pre" "list_all (\<lambda>ev. is_seeding ev \<or> is_dataloader ev) pre"
  then show ?thesis
    by (intro exI[of _ pre]) (simp add: setup_no_schedule)
next
  fix len lv steps opt rs rest e
  assume t: "trace w' = trace w @ seeds fixed_seed @
            [Create_dataloader (dataset_training ''sentences'') (dataset_training ''tags'')
               bert_model_name max_len train_batch_size tag_encoder (Inr len),
             Create_dataloader (dataset_validation ''sentences'') (dataset_validation ''tags'')
               bert_model_name max_len validation_batch_size tag_encoder (Inr lv)]
            @ opt
            @ concat (map (\<lambda>i. epoch_events network device (length tag_encoder) epochs (int i) (rs ! i))
                        [0..<length rs])
            @ rest"
    and o: "opt = [AdamW (optimizer_parameters network custom_weight_decay) learning_rate]"
    and r: "r = Inl e" "rs = []" "rest = []"
  from o r have "filter is_schedule (seeds fixed_seed @
            [Create_dataloader (dataset_training ''sentences'') (dataset_training ''tags'')
               bert_model_name max_len train_batch_size tag_encoder (Inr len),
             Create_dataloader (dataset_validation ''sentences'') (dataset_validation ''tags'')
               bert_model_name max_len validation_batch_size tag_encoder (Inr lv)]
            @ opt
            @ concat (map (\<lambda>i. epoch_events network device (length tag_encoder) epochs (int i) (rs ! i))
                        [0..<length rs])
            @ rest) = []"
    by (simp add: setup_no_schedule[OF setup_seeds])
  with t r show ?thesis by blast
next
  fix len lv steps opt rs rest
  assume n: "num_train_steps len train_batch_size epochs = Inr steps"
    and t: "trace w' = trace w @ seeds fixed_seed @
            [Create_dataloader (dataset_training ''sentences'') (dataset_training ''tags'')
               bert_model_name max_len train_batch_size tag_encoder (Inr len),
             Create_dataloader (dataset_validation ''sentences'') (dataset_validation ''tags'')
               bert_model_name max_len validation_batch_size tag_encoder (Inr lv)]
            @ opt
            @ concat (map (\<lambda>i. epoch_events network device (length tag_encoder) epochs (int i) (rs ! i))
                        [0..<length rs])
            @ rest"
    and o: "opt = [AdamW (optimizer_parameters network custom_weight_decay) learning_rate,
                    Get_linear_schedule_with_warmup warmup_steps steps]"
    and c: "case r of
               Inr res \<Rightarrow> length rs = nat epochs \<and> rest = []
             | Inl err \<Rightarrow>
                 rest = [] \<and> (rs = [] \<or> length rs = nat epochs \<and> err = UnboundLocalError)
                 \<or> length rs < nat epochs \<and>
                    (\<exists>tl. rest = aborted_epoch_events network device (length tag_encoder) epochs
                                   (int (length rs)) err tl)"
  let ?new = "seeds fixed_seed @
            [Create_dataloader (dataset_training ''sentences'') (dataset_training ''tags'')
               bert_model_name max_len train_batch_size tag_encoder (Inr len),
             Create_dataloader (dataset_validation ''sentences'') (dataset_validation ''tags'')
               bert_model_name max_len validation_batch_size tag_encoder (Inr lv)]
            @ opt
            @ concat (map (\<lambda>i. epoch_events network device (length tag_encoder) epochs (int i) (rs ! i))
                        [0..<length rs])
            @ rest"
  from c have rest: "filter is_schedule rest = []" "filter is_dataloader rest = []"
    by (cases r; auto simp: aborted_epoch_events_no_schedule aborted_epoch_events_no_dataloader)+
  have s: "filter is_schedule ?new = [Get_linear_schedule_with_warmup warmup_steps steps]"
    using o rest by (simp add: setup_no_schedule[OF setup_seeds] epoch_events_no_schedule)
  have d: "filter is_dataloader ?new
              = [Create_dataloader (dataset_training ''sentences'') (dataset_training ''tags'')
                   bert_model_name max_len train_batch_size tag_encoder (Inr len),
                 Create_dataloader (dataset_validation ''sentences'') (dataset_validation ''tags'')
                   bert_model_name max_len validation_batch_size tag_encoder (Inr lv)]"
    using o rest by (simp add: seeds_no_dataloader epoch_events_no_dataloader)
  have f: "steps = \<lfloor>rat_of_nat len / rat_of_int train_batch_size\<rfloor> * epochs"
    if "0 < train_batch_size" "0 \<le> epochs"
      "int len mod train_batch_size * epochs < train_batch_size"
      "int len + train_batch_size < 2 ^ 51"
      "(int len + train_batch_size) * (epochs * epochs) < 2 ^ 51"
  proof -
    have "\<lfloor>rat_of_nat len / rat_of_int train_batch_size\<rfloor> = int len div train_batch_size"
      using floor_divide_of_int_eq[of "int len" train_batch_size, where ?'a = rat] by simp
    with num_train_steps_floor[OF that] n show ?thesis by simp
  qed
  from t s d n f show ?thesis
    by (intro exI[of _ ?new] conjI disjI2 exI[of _ len] exI[of _ lv] exI[of _ steps]) blast+
qed

theorem schedule_gets_total_steps_witness:
  "fst (toy_run [Fin 1] 4 1 None) = Inr (toy_network, [Fin 1]) \<and>
   filter is_schedule (trace (snd (toy_run [Fin 1] 4 1 None))) = [Get_linear_schedule_with_warmup 0 2] \<and>
   (2::int) = \<lfloor>rat_of_nat 10 / rat_of_int 4\<rfloor> * 1 \<and>
   fst (toy_run [Fin 1, Fin 2] 5 2 None) = Inr (toy_network, [Fin 1, Fin 2]) \<and>
   filter is_schedule (trace (snd (toy_run [Fin 1, Fin 2] 5 2 None))) = [Get_linear_schedule_with_warmup 0 4] \<and>
   (4::int) = \<lfloor>rat_of_nat 10 / rat_of_int 5\<rfloor> * 2"
proof -
  let ?cd = "\<lambda>bs. [Create_dataloader (toy_dataset 10 ''sentences'') (toy_dataset 10 ''tags'')
                   ''bert-base-multilingual-uncased'' 128 bs [''O'', ''B-LOC''] (Inr 10),
                 Create_dataloader (toy_dataset 4 ''sentences'') (toy_dataset 4 ''tags'')
                   ''bert-base-multilingual-uncased'' 128 8 [''O'', ''B-LOC''] (Inr 4)]"
  have f1: "fst (toy_run [Fin 1] 4 1 None) = Inr (toy_network, [Fin 1])"
    by code_simp
  have s1: "filter is_schedule (trace (snd (toy_run [Fin 1] 4 1 None))) = [Get_linear_schedule_with_warmup 0 2]"
    by code_simp
  have d1: "filter is_dataloader (trace (snd (toy_run [Fin 1] 4 1 None))) = ?cd 4"
    by code_simp
  have f2: "fst (toy_run [Fin 1, Fin 2] 5 2 None) = Inr (toy_network, [Fin 1, Fin 2])"
    by code_simp
  have s2: "filter is_schedule (trace (snd (toy_run [Fin 1, Fin 2] 5 2 None))) = [Get_linear_schedule_with_warmup 0 4]"
    by code_simp
  have d2: "filter is_dataloader (trace (snd (toy_run [Fin 1, Fin 2] 5 2 None))) = ?cd 5"
    by code_simp
  have "toy_run [Fin 1] 4 1 None = (fst (toy_run [Fin 1] 4 1 None), snd (toy_run [Fin 1] 4 1 None))"
    by simp
  from schedule_gets_total_steps[OF this[unfolded toy_run_def], folded toy_run_def] f1 s1 d1
  have a: "(2::int) = \<lfloor>rat_of_nat 10 / rat_of_int 4\<rfloor> * 1"
    by (auto simp: fresh_def)
  have "toy_run [Fin 1, Fin 2] 5 2 None
      = (fst (toy_run [Fin 1, Fin 2] 5 2 None), snd (toy_run [Fin 1, Fin 2] 5 2 None))"
    by simp
  from schedule_gets_total_steps[OF this[unfolded toy_run_def], folded toy_run_def] f2 s2 d2
  have b: "(4::int) = \<lfloor>rat_of_nat 10 / rat_of_int 5\<rfloor> * 2"
    by (auto simp: fresh_def)
  from f1 s1 a f2 s2 b show ?thesis by blast
qed

text \<open>
  As the claim is written, for every dataset size, batch size and epoch count, it fails
  when the left-over examples times \<open>epochs\<close> make up a batch: the fraction of a batch is
  multiplied by \<open>epochs\<close> before the truncation. 10 examples in batches of 4 for 2 epochs
  give 5 steps, not \<open>floor(10 / 4) * 2 = 4\<close>, and 5 is what the schedule is built with.
\<close>

theorem num_train_steps_counterexample:
  "num_train_steps 10 4 2 = Inr 5 \<and> \<lfloor>rat_of_nat 10 / rat_of_int 4\<rfloor> * 2 = (4::int) \<and>
   filter is_schedule (trace (snd (toy_run [Fin 1, Fin 2] 4 2 None))) = [Get_linear_schedule_with_warmup 0 5]"
proof -
  have "num_train_steps 10 4 2 = Inr 5" by code_simp
  moreover have "\<lfloor>rat_of_nat 10 / rat_of_int 4\<rfloor> = (2::int)" by (simp add: floor_eq_iff)
  moreover have "filter is_schedule (trace (snd (toy_run [Fin 1, Fin 2] 4 2 None)))
      = [Get_linear_schedule_with_warmup 0 5]"
    by code_simp
  ultimately show ?thesis by simp
qed

text \<open>
  Nor is the result the floor of the exact \<open>n * epochs / batch size\<close> in general: the
  quotient is rounded first. \<open>1 / 49\<close> as a double, times 49, is just below 1, so that
  one example in a batch of 49 for 49 epochs gives 0 steps. The condition of the theorem
  above is therefore sufficient and not necessary: in exact arithmetic it is the very
  condition under which \<open>floor(n * epochs / batch size) = floor(n / batch size) * epochs\<close>,
  and the rounding brings a few more inputs such as this one to the same value.
\<close>

lemma num_train_steps_rounding:
  "num_train_steps 1 49 49 = Inr 0 \<and> \<lfloor>rat_of_nat 1 * rat_of_int 49 / rat_of_int 49\<rfloor> = (1::int)"
proof -
  have "num_train_steps 1 49 49 = Inr 0" by code_simp
  then show ?thesis by simp
qed

end
